theory Spec2Isabelle
  imports Complex_Main
begin

section \<open>JavaScript values and strings\<close>

text \<open>
  JavaScript strings are modelled as \<^typ>\<open>string\<close>. The request body is untyped JSON (or
  multipart text fields), so its fields are \<open>jsval\<close>s; only their truthiness and whether they
  are strings is ever inspected by the handlers. A stored image reference is declared a string
  in the catalog schema, so a document holds a string, \<open>null\<close> or \<open>undefined\<close> there.
\<close>

datatype jsval = JUndefined | JNull | JBool bool | JNum rat | JStr string | JObject

datatype imgref = RefUndefined | RefNull | Ref string

datatype error = TypeError | IoError | DbError

fun truthy :: "jsval \<Rightarrow> bool" where
  "truthy JUndefined = False"
| "truthy JNull = False"
| "truthy (JBool b) = b"
| "truthy (JNum r) = (r \<noteq> 0)"
| "truthy (JStr s) = (s \<noteq> [])"
| "truthy JObject = True"

text \<open>JavaScript truthiness of a stored reference, as tested by \<open>if (product.imageUrl)\<close>.\<close>

fun truthyRef :: "imgref \<Rightarrow> bool" where
  "truthyRef (Ref u) = (u \<noteq> [])"
| "truthyRef RefNull = False"
| "truthyRef RefUndefined = False"

text \<open>\<open>s.startsWith(p)\<close> and \<open>s.slice(1)\<close> on strings.\<close>

definition startsWith :: "string \<Rightarrow> string \<Rightarrow> bool" where
  "startsWith s p = (take (length p) s = p)"

definition slice1 :: "string \<Rightarrow> string" where
  "slice1 s = drop 1 s"

section \<open>Paths (\<open>path.join\<close> on POSIX)\<close>

text \<open>
  \<open>path.join\<close> concatenates its non-empty arguments with \<open>/\<close> and normalises the result:
  empty and \<open>.\<close> segments vanish, \<open>..\<close> removes the segment before it (and is dropped at the
  root of an absolute path), and a trailing separator is kept. Every path built by the program
  starts from \<open>__dirname\<close>, which is absolute, so a normalised path is its list of segments
  below the root together with the trailing-separator flag; the root itself is \<open>Path [] False\<close>.
\<close>

datatype path = Path (segs: "string list") (trailing: bool)

fun split_slash :: "string \<Rightarrow> string list" where
  "split_slash [] = [[]]"
| "split_slash (c # cs) =
     (if c = CHR ''/'' then [] # split_slash cs
      else (case split_slash cs of [] \<Rightarrow> [[c]] | s # ss \<Rightarrow> (c # s) # ss))"

text \<open>One step of normalisation; the stack holds the segments kept so far, innermost first.\<close>

definition norm_step :: "string \<Rightarrow> string list \<Rightarrow> string list" where
  "norm_step s st =
     (if s = [] \<or> s = ''.'' then st
      else if s = ''..'' then (case st of [] \<Rightarrow> [] | _ # r \<Rightarrow> r)
      else s # st)"

definition normalize :: "string list \<Rightarrow> string list" where
  "normalize xs = rev (fold norm_step xs [])"

definition path_join :: "path \<Rightarrow> string list \<Rightarrow> path" where
  "path_join base args =
     (let args' = filter (\<lambda>a. a \<noteq> []) args;
          ss = normalize (segs base @ concat (map split_slash args'));
          tr = (if args' = [] then trailing base else last (last args') = CHR ''/'')
      in Path ss (tr \<and> ss \<noteq> []))"

text \<open>
  A name a directory entry can have: not empty, not \<open>.\<close> or \<open>..\<close>, and free of the
  separator. \<open>proper\<close> is what normalisation leaves of a segment.
\<close>

definition proper :: "string \<Rightarrow> bool" where
  "proper s = (s \<noteq> [] \<and> s \<noteq> ''.'' \<and> s \<noteq> ''..'')"

definition valid_name :: "string \<Rightarrow> bool" where
  "valid_name s = (proper s \<and> CHR ''/'' \<notin> set s)"

section \<open>The file system\<close>

text \<open>
  The file system is a table from absolute normalised paths to nodes. The operations are the
  synchronous \<open>fs\<close> calls the program makes; a call that throws returns \<open>Inl IoError\<close>.
\<close>

datatype node = File (content: "nat list") | Dir

type_synonym fs = "(string list \<times> node) list"

definition lookup :: "fs \<Rightarrow> string list \<Rightarrow> node option" where
  "lookup fs p = (if p = [] then Some Dir else map_of fs p)"

text \<open>\<open>fs.existsSync\<close>: a path with a trailing separator only names a directory.\<close>

definition existsSync :: "fs \<Rightarrow> path \<Rightarrow> bool" where
  "existsSync fs p =
     (case lookup fs (segs p) of
        None \<Rightarrow> False
      | Some Dir \<Rightarrow> True
      | Some (File _) \<Rightarrow> \<not> trailing p)"

definition put :: "string list \<Rightarrow> node \<Rightarrow> fs \<Rightarrow> fs" where
  "put p n fs = (if p \<in> set (map fst fs) then map (\<lambda>(k, v). if k = p then (k, n) else (k, v)) fs
                 else fs @ [(p, n)])"

definition remove :: "string list \<Rightarrow> fs \<Rightarrow> fs" where
  "remove p fs = filter (\<lambda>(k, v). k \<noteq> p) fs"

text \<open>\<open>fs.writeFileSync\<close>: the parent must be a directory and the target must not be one.\<close>

definition writeFileSync :: "fs \<Rightarrow> path \<Rightarrow> nat list \<Rightarrow> error + fs" where
  "writeFileSync fs p bytes =
     (if segs p = [] \<or> trailing p then Inl IoError
      else if lookup fs (butlast (segs p)) \<noteq> Some Dir then Inl IoError
      else if lookup fs (segs p) = Some Dir then Inl IoError
      else Inr (put (segs p) (File bytes) fs))"

text \<open>\<open>fs.unlinkSync\<close>: removes a file; throws on a directory and on a missing path.\<close>

definition unlinkSync :: "fs \<Rightarrow> path \<Rightarrow> error + fs" where
  "unlinkSync fs p =
     (case lookup fs (segs p) of
        Some (File _) \<Rightarrow> (if trailing p then Inl IoError else Inr (remove (segs p) fs))
      | _ \<Rightarrow> Inl IoError)"

text \<open>\<open>fs.mkdirSync(p, {recursive: true})\<close>: creates every missing directory on the way down;
  throws when a file is in the way, keeping the directories made so far.\<close>

fun mkdirs :: "string list \<Rightarrow> string list \<Rightarrow> fs \<Rightarrow> error option \<times> fs" where
  "mkdirs pre [] fs = (None, fs)"
| "mkdirs pre (s # ss) fs =
     (case lookup fs (pre @ [s]) of
        Some (File _) \<Rightarrow> (Some IoError, fs)
      | Some Dir \<Rightarrow> mkdirs (pre @ [s]) ss fs
      | None \<Rightarrow> mkdirs (pre @ [s]) ss (put (pre @ [s]) Dir fs))"

definition mkdirSync :: "fs \<Rightarrow> path \<Rightarrow> error option \<times> fs" where
  "mkdirSync fs p = mkdirs [] (segs p) fs"

text \<open>\<open>fs.readdirSync\<close>: the names directly below a directory, in table order.\<close>

definition readdirSync :: "fs \<Rightarrow> path \<Rightarrow> error + string list" where
  "readdirSync fs p =
     (if lookup fs (segs p) = Some Dir
      then Inr (map (\<lambda>(k, v). last k) (filter (\<lambda>(k, v). k \<noteq> [] \<and> butlast k = segs p) fs))
      else Inl IoError)"

text \<open>\<open>fs.copyFileSync\<close>: the source must be a file; the destination is written like a file.\<close>

definition copyFileSync :: "fs \<Rightarrow> path \<Rightarrow> path \<Rightarrow> error + fs" where
  "copyFileSync fs src dst =
     (case lookup fs (segs src) of
        Some (File bytes) \<Rightarrow> (if trailing src then Inl IoError else writeFileSync fs dst bytes)
      | _ \<Rightarrow> Inl IoError)"

text \<open>A file system whose entries all have valid names, as every real one has.\<close>

definition wf_fs :: "fs \<Rightarrow> bool" where
  "wf_fs fs = list_all (\<lambda>(k, v). list_all valid_name k) fs"

section \<open>The validator and the URL builder (productController.js)\<close>

text \<open>\<open>validateImageFile\<close>, lines 8-16; \<open>d\<close> is \<open>__dirname\<close>.\<close>

definition validateImageFile :: "string list \<Rightarrow> fs \<Rightarrow> imgref \<Rightarrow> bool" where
  "validateImageFile d fs imageUrl =
     (case imageUrl of
        Ref u \<Rightarrow>
          if u = [] then False
          else let cleanImageUrl = (if startsWith u ''/'' then slice1 u else u);
                   imagePath = path_join (Path d False) [''..'', cleanImageUrl]
               in existsSync fs imagePath
      | _ \<Rightarrow> False)"

text \<open>\<open>getFullImageUrl\<close>, lines 21-37; \<open>None\<close> is JavaScript's \<open>null\<close>.\<close>

definition getFullImageUrl :: "string \<Rightarrow> string \<Rightarrow> imgref \<Rightarrow> string option" where
  "getFullImageUrl protocol host imageUrl =
     (case imageUrl of
        Ref u \<Rightarrow>
          if u = [] then None
          else if startsWith u ''http'' then Some u
          else if startsWith u ''/uploads/'' then Some (protocol @ ''://'' @ host @ u)
          else Some u
      | _ \<Rightarrow> None)"

section \<open>Requests, responses and the catalog\<close>

text \<open>
  A catalog document. \<open>createdAt\<close> is the key \<open>getAllProducts\<close> sorts by.
\<close>

record product =
  pid :: string
  title :: jsval
  description :: jsval
  rating :: jsval
  price :: jsval
  discount :: jsval
  imageUrl :: imgref
  createdAt :: nat

text \<open>
  What a handler reads from \<open>req\<close>: \<open>req.params.id\<close> (empty when absent), the body fields,
  \<open>req.file.filename\<close> when the multipart collaborator stored a file, and the protocol and
  host used to build public URLs.
\<close>

record request =
  params_id :: string
  body_title :: jsval
  body_description :: jsval
  body_rating :: jsval
  body_price :: jsval
  body_discount :: jsval
  body_imageUrl :: jsval
  req_file :: "string option"
  protocol :: string
  host :: string

text \<open>
  What the handlers take from their surroundings: \<open>__dirname\<close> as segments, \<open>Date.now()\<close>,
  the string \<open>Math.random().toString(36)\<close>, the decoder behind \<open>Buffer.from(_, 'base64')\<close>,
  the identifier given to a new document and the schema's verdict on a document being saved.
\<close>

record env =
  dirname :: "string list"
  now :: nat
  random36 :: string
  fromBase64 :: "string \<Rightarrow> nat list"
  fresh_id :: string
  schema_ok :: "product \<Rightarrow> bool"

text \<open>A JSON property that may be missing from an object.\<close>

datatype 'a field = Absent | Present 'a

text \<open>\<open>product.toObject()\<close> with the two properties the handlers may add.\<close>

datatype productObj =
  ProductObj (doc: product) (imageExists: "bool field") (fullImageUrl: "string option field")

text \<open>An entry of the image status report (\<open>getImageStatus\<close>).\<close>

datatype statusEntry =
  StatusEntry (st_id: string) (st_title: jsval) (st_imageUrl: imgref)
    (st_exists: bool) (st_fullUrl: "string option")

datatype payload =
    Message string
  | ServerError error
  | ProductJson productObj
  | ProductsJson "productObj list"
  | StatusJson "statusEntry list"

datatype response = Response (status: nat) (body: payload)

subsection \<open>The catalog record store\<close>

text \<open>
  Modelled from the spec: the Product model (models/Product.js) is not among the sources. The
  Catalog Record Store ``holds one reference per catalog entry'' and ``supplies entries to the
  other components''; it is a list of documents, and every query throws while the connection
  is down.
\<close>

record db =
  docs :: "product list"
  online :: bool

definition Product_find :: "db \<Rightarrow> error + product list" where
  "Product_find d = (if online d then Inr (docs d) else Inl DbError)"

definition Product_findById :: "db \<Rightarrow> string \<Rightarrow> error + product option" where
  "Product_findById d i =
     (if online d then Inr (find (\<lambda>p. pid p = i) (docs d)) else Inl DbError)"

definition Product_save :: "env \<Rightarrow> db \<Rightarrow> product \<Rightarrow> error + product \<times> db" where
  "Product_save e d p =
     (if online d \<and> schema_ok e p then Inr (p, d\<lparr>docs := docs d @ [p]\<rparr>) else Inl DbError)"

definition Product_findByIdAndUpdate ::
  "db \<Rightarrow> string \<Rightarrow> (product \<Rightarrow> product) \<Rightarrow> error + product option \<times> db" where
  "Product_findByIdAndUpdate d i upd =
     (if online d then
        (case find (\<lambda>p. pid p = i) (docs d) of
           None \<Rightarrow> Inr (None, d)
         | Some p \<Rightarrow>
             Inr (Some (upd p), d\<lparr>docs := map (\<lambda>q. if q = p then upd p else q) (docs d)\<rparr>))
      else Inl DbError)"

section \<open>Ingestion of an inline-encoded image\<close>

text \<open>The decimal rendering of a number inside a template literal.\<close>

fun dec :: "nat \<Rightarrow> string" where
  "dec n = (if n < 10 then [''0123456789'' ! n]
            else dec (n div 10) @ [''0123456789'' ! (n mod 10)])"

declare dec.simps [simp del]

definition is_letter :: "char \<Rightarrow> bool" where
  "is_letter c = (c \<in> set ''abcdefghijklmnopqrstuvwxyzABCDEFGHIJKLMNOPQRSTUVWXYZ'')"

text \<open>The characters the regular expression's \<open>.\<close> does not match: the line terminators,
  of which line feed and carriage return are the 8-bit ones.\<close>

definition line_terminator :: "char \<Rightarrow> bool" where
  "line_terminator c = (c = CHR 0x0A \<or> c = CHR 0x0D)"

text \<open>
  \<open>s.match(/^data:image\/([a-zA-Z]+);base64,(.+)$/)\<close>: the two groups, or \<open>None\<close> for
  \<open>null\<close>. The first group is greedy, and the character after it must be \<open>;\<close>, which is no
  letter, so the group is the longest run of letters.
\<close>

definition match_data_uri :: "string \<Rightarrow> (string \<times> string) option" where
  "match_data_uri s =
     (if startsWith s ''data:image/'' then
        (let r = drop 11 s;
             ext = takeWhile is_letter r;
             rest = dropWhile is_letter r
         in if ext \<noteq> [] \<and> startsWith rest '';base64,'' then
              (let payload = drop 8 rest
               in if payload \<noteq> [] \<and> \<not> (\<exists>c \<in> set payload. line_terminator c)
                  then Some (ext, payload) else None)
            else None)
      else None)"

text \<open>
  Where a block of a handler leaves control: it falls through with a value, it has sent a
  response, or it has thrown to the handler's outer \<open>catch\<close>.
\<close>

datatype 'a step = Continue 'a fs | Reply response fs | Throw error fs

definition uploadsDirOf :: "string list \<Rightarrow> path" where
  "uploadsDirOf d = path_join (Path d False) [''..'', ''uploads'']"

text \<open>
  The body of the base64 branch (createProduct lines 130-171, updateProduct lines 254-288);
  \<open>failed\<close> is the message sent when the file is missing after the write. Every exception
  inside the block is answered with 400 ``Invalid image format''.
\<close>

definition ingestBase64 :: "env \<Rightarrow> string \<Rightarrow> string \<Rightarrow> fs \<Rightarrow> string step" where
  "ingestBase64 e failed s fs =
     (let uploadsDir = uploadsDirOf (dirname e);
          (thrown, fs1) = (if \<not> existsSync fs uploadsDir then mkdirSync fs uploadsDir
                           else (None, fs))
      in if thrown \<noteq> None then Reply (Response 400 (Message ''Invalid image format'')) fs1
         else
           (case match_data_uri s of
              None \<Rightarrow> Reply (Response 400 (Message ''Invalid image format'')) fs1
            | Some (fileExtension, base64Data) \<Rightarrow>
                (let buffer = fromBase64 e base64Data;
                     filename = ''base64-'' @ dec (now e) @ ''-'' @ drop 7 (random36 e)
                                @ ''.'' @ fileExtension;
                     filePath = path_join uploadsDir [filename]
                 in case writeFileSync fs1 filePath buffer of
                      Inl _ \<Rightarrow> Reply (Response 400 (Message ''Invalid image format'')) fs1
                    | Inr fs2 \<Rightarrow>
                        if existsSync fs2 filePath
                        then Continue (''/uploads/'' @ filename) fs2
                        else Reply (Response 500 (Message failed)) fs2)))"

section \<open>createProduct (productController.js, lines 104-215)\<close>

text \<open>Lines 111-172: the image reference, empty when neither branch is taken.\<close>

definition createImage :: "env \<Rightarrow> request \<Rightarrow> fs \<Rightarrow> string step" where
  "createImage e req fs =
     (case req_file req of
        Some filename \<Rightarrow>
          (let filePath = path_join (Path (dirname e) False) [''..'', ''uploads'', filename]
           in if existsSync fs filePath then Continue (''/uploads/'' @ filename) fs
              else Reply (Response 500 (Message ''Failed to save uploaded image'')) fs)
      | None \<Rightarrow>
          (case body_imageUrl req of
             JStr s \<Rightarrow>
               if s \<noteq> [] \<and> startsWith s ''data:image''
               then ingestBase64 e ''Failed to save base64 image'' s fs
               else Continue [] fs
           | v \<Rightarrow> if truthy v then Throw TypeError fs else Continue [] fs))"

definition createProduct :: "env \<Rightarrow> request \<Rightarrow> fs \<Rightarrow> db \<Rightarrow> response \<times> fs \<times> db" where
  "createProduct e req fs d =
     (case createImage e req fs of
        Throw err fs1 \<Rightarrow> (Response 500 (ServerError err), fs1, d)
      | Reply r fs1 \<Rightarrow> (r, fs1, d)
      | Continue imageUrl' fs1 \<Rightarrow>
          if \<not> truthy (body_title req) \<or> \<not> truthy (body_rating req)
             \<or> \<not> truthy (body_price req) \<or> \<not> truthy (body_discount req)
          then (Response 400 (Message ''Please provide all required fields''), fs1, d)
          else if imageUrl' = []
          then (Response 400 (Message ''Image is required''), fs1, d)
          else if \<not> validateImageFile (dirname e) fs1 (Ref imageUrl')
          then (Response 500 (Message ''Failed to validate uploaded image''), fs1, d)
          else
            (case Product_save e d
                    \<lparr>pid = fresh_id e, title = body_title req,
                     description = body_description req, rating = body_rating req,
                     price = body_price req, discount = body_discount req,
                     imageUrl = Ref imageUrl', createdAt = now e\<rparr> of
               Inl err \<Rightarrow> (Response 500 (ServerError err), fs1, d)
             | Inr (savedProduct, d') \<Rightarrow>
                 (Response 201
                    (ProductJson
                       (ProductObj savedProduct (Present True)
                          (Present (getFullImageUrl (protocol req) (host req)
                                      (imageUrl savedProduct))))),
                  fs1, d')))"

section \<open>The read handlers (productController.js)\<close>

text \<open>
  Lines 48-59 and 85-92: the document as an object, annotated only when it has a truthy
  image reference.
\<close>

definition enhance :: "env \<Rightarrow> request \<Rightarrow> fs \<Rightarrow> product \<Rightarrow> productObj" where
  "enhance e req fs p =
     (case imageUrl p of
        Ref u \<Rightarrow>
          if u \<noteq> []
          then ProductObj p (Present (validateImageFile (dirname e) fs (imageUrl p)))
                 (Present (getFullImageUrl (protocol req) (host req) (imageUrl p)))
          else ProductObj p Absent Absent
      | _ \<Rightarrow> ProductObj p Absent Absent)"

text \<open>\<open>getAllProducts\<close>, lines 42-67; newest first.\<close>

definition getAllProducts :: "env \<Rightarrow> request \<Rightarrow> fs \<Rightarrow> db \<Rightarrow> response" where
  "getAllProducts e req fs d =
     (case Product_find d of
        Inl err \<Rightarrow> Response 500 (ServerError err)
      | Inr products \<Rightarrow>
          Response 200 (ProductsJson (map (enhance e req fs) (rev (sort_key createdAt products)))))"

text \<open>\<open>getProductById\<close>, lines 72-99.\<close>

definition getProductById :: "env \<Rightarrow> request \<Rightarrow> fs \<Rightarrow> db \<Rightarrow> response" where
  "getProductById e req fs d =
     (if params_id req = [] then Response 400 (Message ''Product ID is required'')
      else case Product_findById d (params_id req) of
             Inl err \<Rightarrow> Response 500 (ServerError err)
           | Inr None \<Rightarrow> Response 404 (Message ''Product not found'')
           | Inr (Some p) \<Rightarrow> Response 200 (ProductJson (enhance e req fs p)))"

text \<open>\<open>getImageStatus\<close>, lines 368-384.\<close>

definition getImageStatus :: "env \<Rightarrow> request \<Rightarrow> fs \<Rightarrow> db \<Rightarrow> response" where
  "getImageStatus e req fs d =
     (case Product_find d of
        Inl err \<Rightarrow> Response 500 (ServerError err)
      | Inr products \<Rightarrow>
          Response 200
            (StatusJson
               (map (\<lambda>p. StatusEntry (pid p) (title p) (imageUrl p)
                            (validateImageFile (dirname e) fs (imageUrl p))
                            (getFullImageUrl (protocol req) (host req) (imageUrl p)))
                    products)))"

section \<open>updateProduct (productController.js, lines 220-325)\<close>

text \<open>The path a reference names below the project root (lines 239 and 303).\<close>

definition storePath :: "string list \<Rightarrow> string \<Rightarrow> path" where
  "storePath d u = path_join (Path d False) [''..'', if startsWith u ''/'' then slice1 u else u]"

text \<open>Lines 234-240: the old image's path, \<open>None\<close> for \<open>null\<close>.\<close>

definition oldImagePathOf :: "env \<Rightarrow> product \<Rightarrow> path option" where
  "oldImagePathOf e p =
     (case imageUrl p of
        Ref u \<Rightarrow> if u \<noteq> [] then Some (storePath (dirname e) u) else None
      | _ \<Rightarrow> None)"

text \<open>Lines 243-289: the new image reference; the old one when no image is supplied.\<close>

definition updateImage :: "env \<Rightarrow> request \<Rightarrow> fs \<Rightarrow> product \<Rightarrow> imgref step" where
  "updateImage e req fs p =
     (case req_file req of
        Some filename \<Rightarrow>
          (let newFilePath = path_join (Path (dirname e) False) [''..'', ''uploads'', filename]
           in if \<not> existsSync fs newFilePath
              then Reply (Response 500 (Message ''Failed to save uploaded image'')) fs
              else Continue (Ref (''/uploads/'' @ filename)) fs)
      | None \<Rightarrow>
          (case body_imageUrl req of
             JStr s \<Rightarrow>
               if s \<noteq> [] \<and> startsWith s ''data:image''
               then (case ingestBase64 e ''Failed to save updated image'' s fs of
                       Continue u fs1 \<Rightarrow> Continue (Ref u) fs1
                     | Reply r fs1 \<Rightarrow> Reply r fs1
                     | Throw err fs1 \<Rightarrow> Throw err fs1)
               else Continue (imageUrl p) fs
           | v \<Rightarrow> if truthy v then Throw TypeError fs else Continue (imageUrl p) fs))"

text \<open>Lines 302-313: the old file goes when its path differs from the new one; a failing
  \<open>unlinkSync\<close> is logged and nothing else. Evaluating the condition throws when there is an
  old path and the new reference is no string.\<close>

definition cleanupOldImage :: "env \<Rightarrow> path option \<Rightarrow> imgref \<Rightarrow> fs \<Rightarrow> error + fs" where
  "cleanupOldImage e oldImagePath imageUrl' fs =
     (case oldImagePath of
        None \<Rightarrow> Inr fs
      | Some old \<Rightarrow>
          (case imageUrl' of
             Ref u \<Rightarrow>
               if old \<noteq> storePath (dirname e) u
               then (if existsSync fs old
                     then (case unlinkSync fs old of Inl _ \<Rightarrow> Inr fs | Inr fs' \<Rightarrow> Inr fs')
                     else Inr fs)
               else Inr fs
           | _ \<Rightarrow> Inl TypeError))"

text \<open>\<open>a || b\<close>.\<close>

definition orJs :: "jsval \<Rightarrow> jsval \<Rightarrow> jsval" where
  "orJs a b = (if truthy a then a else b)"

definition updateProduct :: "env \<Rightarrow> request \<Rightarrow> fs \<Rightarrow> db \<Rightarrow> response \<times> fs \<times> db" where
  "updateProduct e req fs d =
     (if params_id req = [] then (Response 400 (Message ''Product ID is required''), fs, d)
      else
        case Product_findById d (params_id req) of
          Inl err \<Rightarrow> (Response 500 (ServerError err), fs, d)
        | Inr None \<Rightarrow> (Response 404 (Message ''Product not found''), fs, d)
        | Inr (Some product) \<Rightarrow>
            (case updateImage e req fs product of
               Throw err fs1 \<Rightarrow> (Response 500 (ServerError err), fs1, d)
             | Reply r fs1 \<Rightarrow> (r, fs1, d)
             | Continue imageUrl' fs1 \<Rightarrow>
                 (case Product_findByIdAndUpdate d (params_id req)
                         (\<lambda>p. p\<lparr>title := orJs (body_title req) (title product),
                                 description := orJs (body_description req) (description product),
                                 rating := orJs (body_rating req) (rating product),
                                 price := orJs (body_price req) (price product),
                                 discount := orJs (body_discount req) (discount product),
                                 imageUrl := imageUrl'\<rparr>) of
                    Inl err \<Rightarrow> (Response 500 (ServerError err), fs1, d)
                  | Inr (updated, d') \<Rightarrow>
                      (case cleanupOldImage e (oldImagePathOf e product) imageUrl' fs1 of
                         Inl err \<Rightarrow> (Response 500 (ServerError err), fs1, d')
                       | Inr fs2 \<Rightarrow>
                           (case updated of
                              None \<Rightarrow> (Response 500 (ServerError TypeError), fs2, d')
                            | Some p' \<Rightarrow>
                                (Response 200
                                   (ProductJson
                                      (ProductObj p'
                                         (Present (validateImageFile (dirname e) fs2 (imageUrl p')))
                                         (Present (getFullImageUrl (protocol req) (host req)
                                                     (imageUrl p'))))),
                                 fs2, d'))))))"

section \<open>The sweeps (middleware/imageMiddleware.js)\<close>

text \<open>How a sweep ends: it returned early, it ran to the end with its counter, or its outer
  \<open>catch\<close> logged an exception.\<close>

datatype outcome = Skipped | Completed nat | Failed error

text \<open>Lines 287-290 of the middleware: \<open>url.startsWith\<close> throws on \<open>null\<close> and
  \<open>undefined\<close>.\<close>

fun usedImages :: "product list \<Rightarrow> error + string list" where
  "usedImages [] = Inr []"
| "usedImages (p # ps) =
     (case imageUrl p of
        Ref url \<Rightarrow>
          (case usedImages ps of
             Inl err \<Rightarrow> Inl err
           | Inr rest \<Rightarrow> Inr ((if startsWith url ''/'' then slice1 url else url) # rest))
      | _ \<Rightarrow> Inl TypeError)"

text \<open>Lines 292-306: the loop over the directory listing, with \<open>cleanedCount\<close>.\<close>

fun cleanupLoop :: "path \<Rightarrow> string list \<Rightarrow> string list \<Rightarrow> fs \<Rightarrow> nat \<Rightarrow> fs \<times> nat" where
  "cleanupLoop uploadsDir used [] fs cleanedCount = (fs, cleanedCount)"
| "cleanupLoop uploadsDir used (f # files) fs cleanedCount =
     (let filePath = path_join uploadsDir [f];
          relativePath = ''uploads/'' @ f
      in if relativePath \<notin> set used
         then (case unlinkSync fs filePath of
                 Inl _ \<Rightarrow> cleanupLoop uploadsDir used files fs cleanedCount
               | Inr fs' \<Rightarrow> cleanupLoop uploadsDir used files fs' (cleanedCount + 1))
         else cleanupLoop uploadsDir used files fs cleanedCount)"

text \<open>\<open>cleanupOrphanedImages\<close>; \<open>d\<close> is the middleware's \<open>__dirname\<close>.\<close>

definition cleanupOrphanedImages :: "string list \<Rightarrow> fs \<Rightarrow> db \<Rightarrow> fs \<times> outcome" where
  "cleanupOrphanedImages d fs database =
     (let uploadsDir = uploadsDirOf d
      in if \<not> existsSync fs uploadsDir then (fs, Skipped)
         else
           (case readdirSync fs uploadsDir of
              Inl err \<Rightarrow> (fs, Failed err)
            | Inr files \<Rightarrow>
                (case Product_find database of
                   Inl err \<Rightarrow> (fs, Failed err)
                 | Inr products \<Rightarrow>
                     (case usedImages products of
                        Inl err \<Rightarrow> (fs, Failed err)
                      | Inr used \<Rightarrow>
                          (let (fs', cleanedCount) = cleanupLoop uploadsDir used files fs 0
                           in (fs', Completed cleanedCount))))))"

text \<open>Lines 338-346 of \<open>backupImages\<close>: a throwing copy leaves the loop for the outer
  \<open>catch\<close>.\<close>

fun backupLoop ::
  "path \<Rightarrow> path \<Rightarrow> string list \<Rightarrow> fs \<Rightarrow> nat \<Rightarrow> error option \<times> fs \<times> nat" where
  "backupLoop uploadsDir backupDir [] fs backedUpCount = (None, fs, backedUpCount)"
| "backupLoop uploadsDir backupDir (f # files) fs backedUpCount =
     (let sourcePath = path_join uploadsDir [f];
          destPath = path_join backupDir [f]
      in if \<not> existsSync fs destPath
         then (case copyFileSync fs sourcePath destPath of
                 Inl err \<Rightarrow> (Some err, fs, backedUpCount)
               | Inr fs' \<Rightarrow> backupLoop uploadsDir backupDir files fs' (backedUpCount + 1))
         else backupLoop uploadsDir backupDir files fs backedUpCount)"

text \<open>\<open>backupImages\<close>; \<open>today\<close> is \<open>new Date().toISOString().split('T')[0]\<close>. The result
  carries the number of files copied by the run.\<close>

definition backupImages :: "string list \<Rightarrow> string \<Rightarrow> fs \<Rightarrow> fs \<times> nat \<times> outcome" where
  "backupImages d today fs =
     (let uploadsDir = uploadsDirOf d;
          backupDir = path_join (Path d False) [''..'', ''backups'', ''images'', today]
      in if \<not> existsSync fs uploadsDir then (fs, 0, Skipped)
         else
           (let (thrown, fs1) = (if \<not> existsSync fs backupDir then mkdirSync fs backupDir
                                 else (None, fs))
            in case thrown of
                 Some err \<Rightarrow> (fs1, 0, Failed err)
               | None \<Rightarrow>
                   (case readdirSync fs1 uploadsDir of
                      Inl err \<Rightarrow> (fs1, 0, Failed err)
                    | Inr files \<Rightarrow>
                        (case backupLoop uploadsDir backupDir files fs1 0 of
                           (Some err, fs2, n) \<Rightarrow> (fs2, n, Failed err)
                         | (None, fs2, n) \<Rightarrow> (fs2, n, Completed n)))))"

section \<open>Example data\<close>

text \<open>A deployment under \<open>/app\<close>, a create request carrying the inline image
  \<open>data:image/png;base64,AAAA\<close>, and an empty catalog.\<close>

definition ex_env :: env where
  "ex_env = \<lparr>dirname = [''app'', ''controllers''], now = 1700000000000,
              random36 = ''0.4fzyo82mvyr'', fromBase64 = (\<lambda>s. [0, 0, 0]),
              fresh_id = ''p1'', schema_ok = (\<lambda>p. True)\<rparr>"

definition ex_req :: request where
  "ex_req = \<lparr>params_id = [], body_title = JStr ''Attar'', body_description = JUndefined,
              body_rating = JNum 4, body_price = JNum 499, body_discount = JNum 30,
              body_imageUrl = JStr ''data:image/png;base64,AAAA'', req_file = None,
              protocol = ''http'', host = ''localhost:5000''\<rparr>"

definition ex_fs :: fs where
  "ex_fs = [([''app''], Dir), ([''app'', ''uploads''], Dir)]"

definition ex_db :: db where
  "ex_db = \<lparr>docs = [], online = True\<rparr>"

definition ex_product :: product where
  "ex_product = \<lparr>pid = ''p1'', title = JStr ''Attar'', description = JUndefined,
                  rating = JNum 4, price = JNum 499, discount = JNum 30,
                  imageUrl = Ref ''/uploads/base64-1700000000000-82mvyr.png'',
                  createdAt = 1700000000000\<rparr>"

definition ex_fs_after :: fs where
  "ex_fs_after = ex_fs @ [([''app'', ''uploads'', ''base64-1700000000000-82mvyr.png''],
                           File [0, 0, 0])]"

text \<open>A second document without an image reference, a catalog holding both, and a request
  that renames the first document.\<close>

definition ex_bare :: product where
  "ex_bare = \<lparr>pid = ''p2'', title = JStr ''Oud'', description = JUndefined,
               rating = JNum 5, price = JNum 899, discount = JNum 10,
               imageUrl = RefUndefined, createdAt = 1600000000000\<rparr>"

definition ex_db2 :: db where
  "ex_db2 = \<lparr>docs = [ex_bare, ex_product], online = True\<rparr>"

definition ex_rename :: request where
  "ex_rename = \<lparr>params_id = ''p1'', body_title = JStr ''Rose'', body_description = JUndefined,
                 body_rating = JUndefined, body_price = JUndefined, body_discount = JUndefined,
                 body_imageUrl = JUndefined, req_file = None,
                 protocol = ''http'', host = ''localhost:5000''\<rparr>"

text \<open>The middleware's \<open>__dirname\<close>, a catalog holding only the first document, and file
  systems in which the uploads directory also holds an unreferenced file or a subdirectory.\<close>

definition ex_mw :: "string list" where
  "ex_mw = [''app'', ''middleware'']"

definition ex_db1 :: db where
  "ex_db1 = \<lparr>docs = [ex_product], online = True\<rparr>"

definition ex_fs_orphan :: fs where
  "ex_fs_orphan = ex_fs_after @ [([''app'', ''uploads'', ''orphan.png''], File [1])]"

definition ex_fs_subdir :: fs where
  "ex_fs_subdir = ex_fs_after @ [([''app'', ''uploads'', ''tmp''], Dir)]"

text \<open>A later request that replaces the first document's image by a new inline image, and a
  document whose reference names the uploads directory itself.\<close>

definition ex_env2 :: env where
  "ex_env2 = ex_env\<lparr>now := 1700000005000, random36 := ''0.9k2m1x7q4ab''\<rparr>"

definition ex_replace :: request where
  "ex_replace = ex_rename\<lparr>body_title := JUndefined,
                          body_imageUrl := JStr ''data:image/jpeg;base64,BBBB''\<rparr>"

definition ex_fs_replaced :: fs where
  "ex_fs_replaced = ex_fs @ [([''app'', ''uploads'', ''base64-1700000005000-x7q4ab.jpeg''],
                              File [0, 0, 0])]"

definition ex_product_dir :: product where
  "ex_product_dir = ex_product\<lparr>imageUrl := Ref ''/uploads''\<rparr>"

text \<open>The file system after a backup of \<open>ex_fs_orphan\<close> on 2024-05-01.\<close>

definition ex_fs_backed :: fs where
  "ex_fs_backed = ex_fs_orphan @
     [([''app'', ''backups''], Dir),
      ([''app'', ''backups'', ''images''], Dir),
      ([''app'', ''backups'', ''images'', ''2024-05-01''], Dir),
      ([''app'', ''backups'', ''images'', ''2024-05-01'', ''base64-1700000000000-82mvyr.png''],
       File [0, 0, 0]),
      ([''app'', ''backups'', ''images'', ''2024-05-01'', ''orphan.png''], File [1])]"

lemmas ex_defs = ex_env_def ex_req_def ex_fs_def ex_db_def ex_product_def ex_fs_after_def
  ex_bare_def ex_db2_def ex_rename_def ex_mw_def ex_db1_def ex_fs_orphan_def ex_fs_subdir_def
  ex_env2_def ex_replace_def ex_fs_replaced_def ex_product_dir_def ex_fs_backed_def

section \<open>Evaluation rules\<close>

lemmas path_defs = path_join_def normalize_def norm_step_def uploadsDirOf_def storePath_def

lemmas fs_defs = lookup_def existsSync_def put_def remove_def writeFileSync_def unlinkSync_def
  mkdirSync_def readdirSync_def copyFileSync_def wf_fs_def valid_name_def proper_def

lemmas str_defs = startsWith_def slice1_def is_letter_def line_terminator_def
  match_data_uri_def dec.simps

lemmas db_defs = Product_find_def Product_findById_def Product_save_def
  Product_findByIdAndUpdate_def

lemmas handler_defs = validateImageFile_def getFullImageUrl_def ingestBase64_def
  createImage_def createProduct_def enhance_def getAllProducts_def getProductById_def
  getImageStatus_def oldImagePathOf_def updateImage_def cleanupOldImage_def orJs_def
  updateProduct_def cleanupOrphanedImages_def backupImages_def

section \<open>Facts about the model\<close>

subsection \<open>Normalisation\<close>

lemma split_slash_nonempty: "split_slash s \<noteq> []"
  by (induction s) (auto split: list.splits)

lemma split_slash_no_slash: "CHR ''/'' \<notin> set s \<Longrightarrow> split_slash s = [s]"
  by (induction s) auto

lemma norm_step_push: "proper s \<Longrightarrow> norm_step s st = s # st"
  by (simp add: norm_step_def proper_def)

lemma norm_step_cases:
  "norm_step x st = st \<or> norm_step x st = tl st \<or> (proper x \<and> norm_step x st = x # st)"
proof -
  consider "x = [] \<or> x = ''.''" | "x = ''..''" | "proper x"
    unfolding proper_def by blast
  then show ?thesis
  proof cases
    case 1
    then show ?thesis by (simp add: norm_step_def)
  next
    case 2
    then show ?thesis by (cases st) (simp_all add: norm_step_def)
  next
    case 3
    then show ?thesis by (simp add: norm_step_push)
  qed
qed

lemma fold_norm_step_proper:
  "\<forall>s \<in> set xs. proper s \<Longrightarrow> fold norm_step xs st = rev xs @ st"
  by (induction xs arbitrary: st) (simp_all add: norm_step_push)

lemma norm_step_proper:
  assumes "\<forall>s \<in> set st. proper s"
  shows "\<forall>s \<in> set (norm_step x st). proper s"
proof -
  have "set (tl st) \<subseteq> set st" by (cases st) auto
  with assms norm_step_cases [of x st] show ?thesis by auto
qed

lemma fold_norm_step_keeps_proper:
  "\<forall>s \<in> set st. proper s \<Longrightarrow> \<forall>s \<in> set (fold norm_step xs st). proper s"
proof (induction xs arbitrary: st)
  case Nil
  then show ?case by simp
next
  case (Cons x xs)
  from Cons.IH [OF norm_step_proper [OF Cons.prems]] show ?case by simp
qed

lemma normalize_proper: "\<forall>s \<in> set (normalize xs). proper s"
  using fold_norm_step_keeps_proper [of "[]" xs] by (simp add: normalize_def)

lemma path_join_proper: "\<forall>s \<in> set (segs (path_join base args)). proper s"
  by (simp add: path_join_def Let_def normalize_proper)

lemma normalize_snoc_valid:
  assumes "\<forall>s \<in> set xs. proper s" and "proper f"
  shows "normalize (xs @ [f]) = xs @ [f]"
  using assms fold_norm_step_proper [of "xs @ [f]" "[]"] by (simp add: normalize_def)

lemma path_join_valid_name:
  assumes "\<forall>s \<in> set (segs base). proper s" and "valid_name f"
  shows "path_join base [f] = Path (segs base @ [f]) False"
proof -
  from assms(2) have f: "f \<noteq> []" "proper f" "CHR ''/'' \<notin> set f"
    by (simp_all add: valid_name_def proper_def)
  then have "last f \<noteq> CHR ''/''" by (metis last_in_set)
  with f assms(1) show ?thesis
    by (simp add: path_join_def split_slash_no_slash normalize_snoc_valid)
qed

subsection \<open>Generated file names\<close>




subsection \<open>Updates of the table\<close>

lemma map_of_put: "map_of (put p n fs) = (map_of fs)(p \<mapsto> n)"
proof (cases "p \<in> set (map fst fs)")
  case True
  have "map_of (map (\<lambda>(k, v). if k = p then (k, n) else (k, v)) fs) q
          = (if q = p then (if p \<in> fst ` set fs then Some n else None) else map_of fs q)" for q
    by (induction fs) (auto simp: rev_image_eqI)
  with True show ?thesis by (auto simp: put_def fun_eq_iff)
next
  case False
  then have "map_of fs p = None" by (simp add: map_of_eq_None_iff)
  with False show ?thesis by (auto simp: put_def fun_eq_iff map_add_def split: option.splits)
qed

lemma lookup_Nil [simp]: "lookup fs [] = Some Dir"
  by (simp add: lookup_def)

lemma lookup_put:
  "lookup (put k n fs) p = (if p = [] then Some Dir else if p = k then Some n else lookup fs p)"
  by (simp add: lookup_def map_of_put)

lemma map_of_remove: "map_of (remove p fs) = (map_of fs)(p := None)"
  by (induction fs) (auto simp: remove_def fun_eq_iff)

lemma lookup_remove:
  "lookup (remove k fs) p = (if p = [] then Some Dir else if p = k then None else lookup fs p)"
  by (simp add: lookup_def map_of_remove)

lemma mkdirs_keeps_files:
  "(lookup (snd (mkdirs pre ss fs)) p = Some (File b)) = (lookup fs p = Some (File b))"
proof (induction ss arbitrary: pre fs)
  case Nil
  then show ?case by simp
next
  case (Cons s ss)
  show ?case
  proof (cases "lookup fs (pre @ [s])")
    case None
    then show ?thesis using Cons [of "pre @ [s]" "put (pre @ [s]) Dir fs"]
      by (auto simp: lookup_put)
  next
    case (Some n)
    then show ?thesis using Cons [of "pre @ [s]" fs] by (cases n) auto
  qed
qed

subsection \<open>The image block of createProduct\<close>

lemma ingestBase64_malformed:
  assumes "match_data_uri s = None"
  shows "\<exists>fs'. ingestBase64 e msg s fs = Reply (Response 400 (Message ''Invalid image format'')) fs'
           \<and> (\<forall>p b. (lookup fs' p = Some (File b)) = (lookup fs p = Some (File b)))"
proof (cases "existsSync fs (uploadsDirOf (dirname e))")
  case True
  with assms show ?thesis by (simp add: ingestBase64_def)
next
  case False
  obtain thrown fs1 where mk: "mkdirs [] (segs (uploadsDirOf (dirname e))) fs = (thrown, fs1)"
    by (cases "mkdirs [] (segs (uploadsDirOf (dirname e))) fs")
  have "(lookup fs1 p = Some (File b)) = (lookup fs p = Some (File b))" for p b
    using mkdirs_keeps_files [of "[]" "segs (uploadsDirOf (dirname e))" fs p b] mk by simp
  with assms False mk show ?thesis
    by (simp add: ingestBase64_def mkdirSync_def)
qed



lemma createImage_malformed:
  assumes "req_file req = None" and "body_imageUrl req = JStr s" and "match_data_uri s = None"
  shows "\<exists>fs'. createImage e req fs =
           (if startsWith s ''data:image''
            then Reply (Response 400 (Message ''Invalid image format'')) fs'
            else Continue [] fs')
         \<and> (\<forall>p b. (lookup fs' p = Some (File b)) = (lookup fs p = Some (File b)))"
proof (cases "startsWith s ''data:image''")
  case True
  then have "s \<noteq> []" by (auto simp: startsWith_def)
  with True assms ingestBase64_malformed [OF assms(3), of e "''Failed to save base64 image''" fs]
  show ?thesis by (auto simp: createImage_def)
next
  case False
  with assms show ?thesis by (simp add: createImage_def)
qed



lemma startsWith_http: "startsWith u ''http'' \<Longrightarrow> u \<noteq> [] \<and> \<not> startsWith u ''/''"
  by (cases u) (auto simp: startsWith_def)

lemma ex_create_run:
  "createProduct ex_env ex_req ex_fs ex_db =
     (Response 201
        (ProductJson
           (ProductObj ex_product (Present True)
              (Present (Some ''http://localhost:5000/uploads/base64-1700000000000-82mvyr.png'')))),
      ex_fs_after, ex_db\<lparr>docs := [ex_product]\<rparr>)"
  by (simp add: ex_defs handler_defs path_defs fs_defs str_defs db_defs)

lemma uploadsDir_proper: "\<forall>s \<in> set (segs (uploadsDirOf d)). proper s"
  by (simp add: uploadsDirOf_def path_join_proper)



subsection \<open>Annotated objects and the example responses\<close>







subsection \<open>What the image blocks reply\<close>




subsection \<open>The live reference set\<close>

lemma usedImages_throws:
  assumes "p \<in> set ps" and "\<not> truthyRef (imageUrl p)" and "imageUrl p \<noteq> Ref []"
  shows "usedImages ps = Inl TypeError"
  using assms
proof (induction ps)
  case Nil
  then show ?case by simp
next
  case (Cons q qs)
  show ?case
  proof (cases "imageUrl q")
    case (Ref u)
    with Cons have "p \<in> set qs" by (cases "imageUrl p") auto
    with Cons have "usedImages qs = Inl TypeError" by simp
    with Ref show ?thesis by simp
  qed simp_all
qed

lemma ex_replace_run:
  "updateProduct ex_env2 ex_replace ex_fs_after ex_db1
     = (Response 200 (ProductJson
          (ProductObj (ex_product\<lparr>imageUrl := Ref ''/uploads/base64-1700000005000-x7q4ab.jpeg''\<rparr>)
             (Present True)
             (Present (Some ''http://localhost:5000/uploads/base64-1700000005000-x7q4ab.jpeg'')))),
        ex_fs_replaced,
        ex_db1\<lparr>docs := [ex_product\<lparr>imageUrl := Ref ''/uploads/base64-1700000005000-x7q4ab.jpeg''\<rparr>]\<rparr>)"
  by (simp add: ex_defs handler_defs db_defs path_defs fs_defs str_defs)

lemma ex_replace_dir_run:
  "updateProduct ex_env2 ex_replace ex_fs_after (ex_db1\<lparr>docs := [ex_product_dir]\<rparr>)
     = (Response 200 (ProductJson
          (ProductObj (ex_product\<lparr>imageUrl := Ref ''/uploads/base64-1700000005000-x7q4ab.jpeg''\<rparr>)
             (Present True)
             (Present (Some ''http://localhost:5000/uploads/base64-1700000005000-x7q4ab.jpeg'')))),
        ex_fs_after @ [([''app'', ''uploads'', ''base64-1700000005000-x7q4ab.jpeg''], File [0, 0, 0])],
        ex_db1\<lparr>docs := [ex_product\<lparr>imageUrl := Ref ''/uploads/base64-1700000005000-x7q4ab.jpeg''\<rparr>]\<rparr>)"
  by (simp add: ex_defs handler_defs db_defs path_defs fs_defs str_defs)

subsection \<open>References and the paths they name\<close>

lemma split_slash_prefix:
  "CHR ''/'' \<notin> set a \<Longrightarrow> split_slash (a @ CHR ''/'' # b) = a # split_slash b"
  by (induction a) (auto split: list.splits)

lemma normalize_normalize_append: "normalize (normalize xs @ ys) = normalize (xs @ ys)"
proof -
  have "fold norm_step (normalize xs) [] = rev (normalize xs)"
    using fold_norm_step_proper [OF normalize_proper, of xs "[]"] by simp
  then show ?thesis by (simp add: normalize_def)
qed

lemma path_join_assoc:
  assumes "filter (\<lambda>a. a \<noteq> []) bs \<noteq> []"
  shows "path_join (path_join base as) bs = path_join base (as @ bs)"
proof -
  have "segs (path_join (path_join base as) bs) = segs (path_join base (as @ bs))"
    by (simp add: path_join_def Let_def normalize_normalize_append)
  moreover from this assms
  have "trailing (path_join (path_join base as) bs) = trailing (path_join base (as @ bs))"
    by (simp add: path_join_def Let_def)
  ultimately show ?thesis by (simp add: path.expand)
qed

lemma storePath_uploads:
  assumes "f \<noteq> []"
  shows "storePath d (''/uploads/'' @ f) = path_join (Path d False) [''..'', ''uploads'', f]"
proof -
  have "split_slash (''uploads'' @ CHR ''/'' # f) = ''uploads'' # split_slash f"
    by (rule split_slash_prefix) simp
  then have "split_slash (''uploads/'' @ f) = ''uploads'' # split_slash f" by simp
  with assms show ?thesis
    by (simp add: storePath_def startsWith_def slice1_def path_join_def Let_def)
qed

lemma uploads_filePath:
  assumes "f \<noteq> []"
  shows "path_join (uploadsDirOf d) [f] = storePath d (''/uploads/'' @ f)"
proof -
  have "path_join (uploadsDirOf d) [f] = path_join (Path d False) ([''..'', ''uploads''] @ [f])"
    unfolding uploadsDirOf_def using assms by (intro path_join_assoc) simp
  with storePath_uploads [OF assms, of d] show ?thesis by simp
qed

subsection \<open>The image block and the cleanup of updateProduct\<close>

lemma ingestBase64_continue:
  assumes "ingestBase64 e msg s fs = Continue u fs1"
  shows "\<exists>f. f \<noteq> [] \<and> u = ''/uploads/'' @ f \<and> existsSync fs1 (path_join (uploadsDirOf (dirname e)) [f])"
  using assms
  by (auto simp: ingestBase64_def Let_def split: prod.splits option.splits sum.splits if_splits)

lemma updateImage_new_present:
  assumes img: "updateImage e req fs p = Continue (Ref new) fs1"
    and supplied: "req_file req \<noteq> None \<or>
                   (\<exists>s. body_imageUrl req = JStr s \<and> s \<noteq> [] \<and> startsWith s ''data:image'')"
    and named: "case req_file req of Some f \<Rightarrow> f \<noteq> [] | None \<Rightarrow> True"
  shows "existsSync fs1 (storePath (dirname e) new)"
proof (cases "req_file req")
  case (Some f)
  with named have f: "f \<noteq> []" by simp
  from img Some have "new = ''/uploads/'' @ f" "fs1 = fs"
    "existsSync fs (path_join (Path (dirname e) False) [''..'', ''uploads'', f])"
    by (auto simp: updateImage_def Let_def split: if_splits)
  with storePath_uploads [OF f, of "dirname e"] show ?thesis by simp
next
  case None
  with supplied obtain s where s: "body_imageUrl req = JStr s" "s \<noteq> []" "startsWith s ''data:image''"
    by auto
  with img None have "ingestBase64 e ''Failed to save updated image'' s fs = Continue new fs1"
    by (auto simp: updateImage_def split: step.splits)
  from ingestBase64_continue [OF this] obtain f where
    "f \<noteq> []" "new = ''/uploads/'' @ f" "existsSync fs1 (path_join (uploadsDirOf (dirname e)) [f])"
    by blast
  with uploads_filePath [of f "dirname e"] show ?thesis by simp
qed

lemma cleanupOldImage_result:
  "cleanupOldImage e (Some old) (Ref new) fs =
     Inr (if old \<noteq> storePath (dirname e) new \<and> (\<exists>b. lookup fs (segs old) = Some (File b))
             \<and> \<not> trailing old
          then remove (segs old) fs else fs)"
proof (cases "lookup fs (segs old)")
  case None
  then show ?thesis by (simp add: cleanupOldImage_def existsSync_def)
next
  case (Some n)
  then show ?thesis
    by (cases n) (simp_all add: cleanupOldImage_def existsSync_def unlinkSync_def)
qed

subsection \<open>The backup loop\<close>

lemma existsSync_lookup:
  "existsSync fs p = (lookup fs (segs p) = Some Dir \<or> (\<exists>b. lookup fs (segs p) = Some (File b)) \<and> \<not> trailing p)"
  by (auto simp: existsSync_def split: option.splits node.splits)

lemma writeFileSync_Inr:
  assumes "writeFileSync fs p bytes = Inr fs'"
  shows "fs' = put (segs p) (File bytes) fs \<and> segs p \<noteq> [] \<and> \<not> trailing p
         \<and> lookup fs (segs p) \<noteq> Some Dir"
  using assms by (auto simp: writeFileSync_def split: if_splits)

lemma copyFileSync_Inr:
  assumes "copyFileSync fs src dst = Inr fs'"
  shows "\<exists>bytes. fs' = put (segs dst) (File bytes) fs \<and> segs dst \<noteq> [] \<and> \<not> trailing dst
           \<and> lookup fs (segs dst) \<noteq> Some Dir"
  using assms
  by (auto simp: copyFileSync_def dest: writeFileSync_Inr split: option.splits node.splits if_splits)

lemma copy_adds_entry:
  assumes "\<not> existsSync fs dst" and "copyFileSync fs src dst = Inr fs'"
  shows "\<exists>bytes. fs' = put (segs dst) (File bytes) fs \<and> lookup fs (segs dst) = None
           \<and> segs dst \<noteq> [] \<and> \<not> trailing dst"
proof -
  from copyFileSync_Inr [OF assms(2)] obtain bytes where
    c: "fs' = put (segs dst) (File bytes) fs" "segs dst \<noteq> []" "\<not> trailing dst"
    by blast
  with assms(1) have "lookup fs (segs dst) = None"
    by (cases "lookup fs (segs dst)") (auto simp: existsSync_def split: node.splits)
  with c show ?thesis by blast
qed

lemma lookup_put_new:
  assumes "lookup fs k = None" and "lookup fs q \<noteq> None"
  shows "lookup (put k n fs) q = lookup fs q"
  using assms by (auto simp: lookup_put)

lemma backupLoop_keeps:
  assumes "backupLoop U B files fs n = (r, fs', n')" and "lookup fs q \<noteq> None"
  shows "lookup fs' q = lookup fs q"
  using assms
proof (induction files arbitrary: fs n)
  case Nil
  then show ?case by simp
next
  case (Cons f files)
  let ?dst = "path_join B [f]"
  show ?case
  proof (cases "existsSync fs ?dst")
    case True
    with Cons show ?thesis by (simp add: Let_def)
  next
    case False
    show ?thesis
    proof (cases "copyFileSync fs (path_join U [f]) ?dst")
      case (Inl err)
      with False Cons.prems show ?thesis by (simp add: Let_def)
    next
      case (Inr fs2)
      from copy_adds_entry [OF False Inr] obtain bytes where
        fs2: "fs2 = put (segs ?dst) (File bytes) fs" and new: "lookup fs (segs ?dst) = None"
        by blast
      from new Cons.prems(2) have keep: "lookup fs2 q = lookup fs q"
        unfolding fs2 by (rule lookup_put_new)
      from False Inr Cons.prems(1) have "backupLoop U B files fs2 (n + 1) = (r, fs', n')"
        by (simp add: Let_def)
      from Cons.IH [OF this] keep Cons.prems(2) show ?thesis by simp
    qed
  qed
qed

lemma backupLoop_exists:
  assumes "backupLoop U B files fs n = (r, fs', n')" and "existsSync fs q"
  shows "existsSync fs' q"
proof -
  from assms(2) have "lookup fs (segs q) \<noteq> None" by (auto simp: existsSync_lookup)
  from backupLoop_keeps [OF assms(1) this] assms(2) show ?thesis
    by (simp add: existsSync_def)
qed

lemma backupLoop_again:
  assumes "backupLoop U B files fs n = (r, fs', n')"
  shows "backupLoop U B files fs' m = (r, fs', m)"
  using assms
proof (induction files arbitrary: fs n)
  case Nil
  then show ?case by simp
next
  case (Cons f files)
  let ?dst = "path_join B [f]"
  show ?case
  proof (cases "existsSync fs ?dst")
    case True
    with Cons.prems have rest: "backupLoop U B files fs n = (r, fs', n')" by (simp add: Let_def)
    from backupLoop_exists [OF rest True] Cons.IH [OF rest] show ?thesis
      by (simp add: Let_def)
  next
    case False
    show ?thesis
    proof (cases "copyFileSync fs (path_join U [f]) ?dst")
      case (Inl err)
      with False Cons.prems show ?thesis by (auto simp: Let_def)
    next
      case (Inr fs2)
      from copy_adds_entry [OF False Inr] obtain bytes where
        fs2: "fs2 = put (segs ?dst) (File bytes) fs" and tr: "\<not> trailing ?dst" "segs ?dst \<noteq> []"
        by blast
      then have there: "existsSync fs2 ?dst" by (simp add: existsSync_def lookup_put)
      from False Inr Cons.prems have rest: "backupLoop U B files fs2 (n + 1) = (r, fs', n')"
        by (simp add: Let_def)
      from backupLoop_exists [OF rest there] Cons.IH [OF rest] show ?thesis
        by (simp add: Let_def)
    qed
  qed
qed

subsection \<open>Directory listings\<close>

lemma lookup_None_iff: "k \<noteq> [] \<Longrightarrow> (lookup fs k = None) = (k \<notin> fst ` set fs)"
  by (simp add: lookup_def map_of_eq_None_iff)

lemma readdirSync_Inr:
  assumes "readdirSync fs U = Inr files"
  shows "lookup fs (segs U) = Some Dir \<and>
         files = map (\<lambda>(k, v). last k) (filter (\<lambda>(k, v). k \<noteq> [] \<and> butlast k = segs U) fs)"
  using assms by (auto simp: readdirSync_def split: if_splits)

lemma readdirSync_mem:
  assumes "readdirSync fs U = Inr files" and "f \<in> set files"
  shows "lookup fs (segs U @ [f]) \<noteq> None"
proof -
  from readdirSync_Inr [OF assms(1)] assms(2)
  obtain k v where kv: "(k, v) \<in> set fs" "k \<noteq> []" "butlast k = segs U" "last k = f"
    by auto
  then have "k = segs U @ [f]" by (metis append_butlast_last_id)
  with kv(1) have "segs U @ [f] \<in> fst ` set fs" by (metis fst_conv image_eqI)
  then show ?thesis by (simp add: lookup_None_iff)
qed

lemma listing_map:
  assumes "\<And>x. fst (g x) = fst x"
  shows "map (\<lambda>x. h (fst x)) (filter (\<lambda>x. P (fst x)) (map g fs))
         = map (\<lambda>x. h (fst x)) (filter (\<lambda>x. P (fst x)) fs)"
  by (induction fs) (simp_all add: assms)

lemma listing_put:
  assumes "butlast k \<noteq> u"
  shows "map (\<lambda>(k, v). last k) (filter (\<lambda>(k, v). k \<noteq> [] \<and> butlast k = u) (put k n fs))
         = map (\<lambda>(k, v). last k) (filter (\<lambda>(k, v). k \<noteq> [] \<and> butlast k = u) fs)"
proof (cases "k \<in> set (map fst fs)")
  case True
  have "fst ((\<lambda>(k', v). if k' = k then (k', n) else (k', v)) x) = fst x" for x :: "string list \<times> node"
    by (cases x) simp
  from listing_map [of "\<lambda>(k', v). if k' = k then (k', n) else (k', v)" last
                       "\<lambda>k. k \<noteq> [] \<and> butlast k = u" fs, OF this]
  show ?thesis using True by (simp add: put_def split_def)
next
  case False
  with assms show ?thesis by (simp add: put_def)
qed

lemma readdirSync_put:
  assumes "butlast k \<noteq> segs U" and "lookup fs k = None" and "lookup fs (segs U) = Some Dir"
  shows "readdirSync (put k n fs) U = readdirSync fs U"
proof -
  from assms(2,3) have "lookup (put k n fs) (segs U) = Some Dir"
    by (auto simp: lookup_put)
  with assms(3) listing_put [OF assms(1)] show ?thesis by (simp add: readdirSync_def)
qed

lemma backupLoop_listing:
  assumes "backupLoop U B files fs n = (r, fs', n')"
    and "readdirSync fs U = Inr files0" and "set files \<subseteq> set files0"
    and "\<forall>f \<in> set files0. valid_name f" and "\<forall>s \<in> set (segs B). proper s"
  shows "readdirSync fs' U = Inr files0"
  using assms(1,2,3)
proof (induction files arbitrary: fs n)
  case Nil
  then show ?case by simp
next
  case (Cons f files)
  from Cons.prems(3) assms(4) have "valid_name f" by simp
  with assms(5) have dst: "path_join B [f] = Path (segs B @ [f]) False"
    by (rule path_join_valid_name)
  show ?case
  proof (cases "existsSync fs (path_join B [f])")
    case True
    with Cons show ?thesis by (simp add: Let_def)
  next
    case False
    show ?thesis
    proof (cases "copyFileSync fs (path_join U [f]) (path_join B [f])")
      case (Inl err)
      with False Cons.prems show ?thesis by (simp add: Let_def)
    next
      case (Inr fs2)
      from copy_adds_entry [OF False Inr] dst obtain bytes where
        fs2: "fs2 = put (segs B @ [f]) (File bytes) fs" and new: "lookup fs (segs B @ [f]) = None"
        by auto
      have "segs B \<noteq> segs U"
      proof
        assume "segs B = segs U"
        with new readdirSync_mem [OF Cons.prems(2), of f] Cons.prems(3) show False by simp
      qed
      then have "butlast (segs B @ [f]) \<noteq> segs U" by simp
      from readdirSync_put [OF this new] readdirSync_Inr [OF Cons.prems(2)] Cons.prems(2)
      have list2: "readdirSync fs2 U = Inr files0" by (simp add: fs2)
      from False Inr Cons.prems(1) have "backupLoop U B files fs2 (n + 1) = (r, fs', n')"
        by (simp add: Let_def)
      from Cons.IH [OF this list2] Cons.prems(3) show ?thesis by simp
    qed
  qed
qed

subsection \<open>Recursive directory creation\<close>

lemma mkdirs_keeps:
  "lookup fs q \<noteq> None \<Longrightarrow> lookup (snd (mkdirs pre ss fs)) q = lookup fs q"
proof (induction ss arbitrary: pre fs)
  case Nil
  then show ?case by simp
next
  case (Cons s ss)
  show ?case
  proof (cases "lookup fs (pre @ [s])")
    case None
    with Cons.prems have "lookup (put (pre @ [s]) Dir fs) q = lookup fs q"
      by (intro lookup_put_new)
    with None Cons.prems Cons.IH [of "put (pre @ [s]) Dir fs" "pre @ [s]"] show ?thesis by simp
  next
    case (Some n)
    with Cons show ?thesis by (cases n) simp_all
  qed
qed

lemma mkdirs_success:
  "mkdirs pre ss fs = (None, fs1) \<Longrightarrow> lookup fs pre = Some Dir \<Longrightarrow> lookup fs1 (pre @ ss) = Some Dir"
proof (induction ss arbitrary: pre fs)
  case Nil
  then show ?case by simp
next
  case (Cons s ss)
  show ?case
  proof (cases "lookup fs (pre @ [s])")
    case None
    with Cons.prems have "mkdirs (pre @ [s]) ss (put (pre @ [s]) Dir fs) = (None, fs1)" by simp
    from Cons.IH [OF this] show ?thesis by (simp add: lookup_put)
  next
    case (Some n)
    show ?thesis
    proof (cases n)
      case (File b)
      with Some Cons.prems show ?thesis by simp
    next
      case Dir
      with Some Cons.prems have "mkdirs (pre @ [s]) ss fs = (None, fs1)" by simp
      from Cons.IH [OF this] Some Dir show ?thesis by simp
    qed
  qed
qed

lemma mkdirs_again: "mkdirs pre ss fs = (r, fs1) \<Longrightarrow> mkdirs pre ss fs1 = (r, fs1)"
proof (induction ss arbitrary: pre fs)
  case Nil
  then show ?case by simp
next
  case (Cons s ss)
  show ?case
  proof (cases "lookup fs (pre @ [s])")
    case None
    let ?fs2 = "put (pre @ [s]) Dir fs"
    from None Cons.prems have run: "mkdirs (pre @ [s]) ss ?fs2 = (r, fs1)" by simp
    have "lookup ?fs2 (pre @ [s]) = Some Dir" by (simp add: lookup_put)
    with mkdirs_keeps [of ?fs2 "pre @ [s]" "pre @ [s]" ss] run
    have "lookup fs1 (pre @ [s]) = Some Dir" by simp
    with Cons.IH [OF run] show ?thesis by simp
  next
    case (Some n)
    show ?thesis
    proof (cases n)
      case (File b)
      with Some Cons.prems show ?thesis by auto
    next
      case Dir
      with Some Cons.prems have run: "mkdirs (pre @ [s]) ss fs = (r, fs1)" by simp
      from Some Dir mkdirs_keeps [of fs "pre @ [s]" "pre @ [s]" ss] run
      have "lookup fs1 (pre @ [s]) = Some Dir" by simp
      with Cons.IH [OF run] show ?thesis by simp
    qed
  qed
qed

lemma mkdirs_failure_target:
  "mkdirs pre ss fs = (Some err, fs1) \<Longrightarrow> lookup fs1 (pre @ ss) = lookup fs (pre @ ss)"
proof (induction ss arbitrary: pre fs)
  case Nil
  then show ?case by simp
next
  case (Cons s ss)
  show ?case
  proof (cases "lookup fs (pre @ [s])")
    case None
    with Cons.prems have run: "mkdirs (pre @ [s]) ss (put (pre @ [s]) Dir fs) = (Some err, fs1)"
      by simp
    then have "ss \<noteq> []" by auto
    with Cons.IH [OF run] show ?thesis by (simp add: lookup_put)
  next
    case (Some n)
    show ?thesis
    proof (cases n)
      case (File b)
      with Some Cons.prems show ?thesis by simp
    next
      case Dir
      with Some Cons.prems have "mkdirs (pre @ [s]) ss fs = (Some err, fs1)" by simp
      from Cons.IH [OF this] show ?thesis by simp
    qed
  qed
qed

subsection \<open>Well-formed file systems\<close>

lemma split_slash_out: "s \<in> set (split_slash x) \<Longrightarrow> CHR ''/'' \<notin> set s"
proof (induction x arbitrary: s)
  case Nil
  then show ?case by simp
next
  case (Cons c cs)
  obtain t ts where ts: "split_slash cs = t # ts"
    using split_slash_nonempty [of cs] by (cases "split_slash cs") auto
  with Cons show ?case by (cases "c = CHR ''/''") auto
qed

lemma norm_step_subset: "set (norm_step x st) \<subseteq> insert x (set st)"
proof -
  have "set (tl st) \<subseteq> set st" by (cases st) auto
  with norm_step_cases [of x st] show ?thesis by auto
qed

lemma fold_norm_step_subset: "set (fold norm_step xs st) \<subseteq> set xs \<union> set st"
proof (induction xs arbitrary: st)
  case Nil
  then show ?case by simp
next
  case (Cons x xs)
  from Cons [of "norm_step x st"] norm_step_subset [of x st] show ?case by auto
qed

lemma normalize_subset: "set (normalize xs) \<subseteq> set xs"
  using fold_norm_step_subset [of xs "[]"] by (simp add: normalize_def)

lemma path_join_valid_segs:
  assumes "\<forall>s \<in> set (segs base). CHR ''/'' \<notin> set s"
  shows "\<forall>s \<in> set (segs (path_join base args)). valid_name s"
proof
  fix s assume s: "s \<in> set (segs (path_join base args))"
  then have "proper s" using path_join_proper by blast
  moreover from s have "s \<in> set (segs base) \<or>
      (\<exists>a. s \<in> set (split_slash a))"
    using normalize_subset [of "segs base @ concat (map split_slash (filter (\<lambda>a. a \<noteq> []) args))"]
    by (auto simp: path_join_def Let_def)
  with assms have "CHR ''/'' \<notin> set s" by (auto dest: split_slash_out)
  ultimately show "valid_name s" by (simp add: valid_name_def)
qed

lemma wf_fs_iff: "wf_fs fs = (\<forall>k \<in> fst ` set fs. \<forall>s \<in> set k. valid_name s)"
  by (auto simp: wf_fs_def list_all_iff)

lemma put_keys: "fst ` set (put k n fs) = insert k (fst ` set fs)"
proof -
  have "dom (map_of (put k n fs)) = insert k (dom (map_of fs))"
    by (simp add: map_of_put)
  then show ?thesis by (simp add: dom_map_of_conv_image_fst)
qed

lemma wf_fs_put: "wf_fs fs \<Longrightarrow> \<forall>s \<in> set k. valid_name s \<Longrightarrow> wf_fs (put k n fs)"
  by (simp add: wf_fs_iff put_keys)

lemma wf_fs_mkdirs:
  "wf_fs fs \<Longrightarrow> \<forall>s \<in> set (pre @ ss). valid_name s \<Longrightarrow> wf_fs (snd (mkdirs pre ss fs))"
proof (induction ss arbitrary: pre fs)
  case Nil
  then show ?case by simp
next
  case (Cons s ss)
  from Cons.prems(2) have v: "\<forall>t \<in> set (pre @ [s]). valid_name t"
    "\<forall>t \<in> set ((pre @ [s]) @ ss). valid_name t" by auto
  show ?case
  proof (cases "lookup fs (pre @ [s])")
    case None
    from wf_fs_put [OF Cons.prems(1) v(1)] have "wf_fs (put (pre @ [s]) Dir fs)" .
    from Cons.IH [OF this v(2)] None show ?thesis by simp
  next
    case (Some n)
    with Cons.IH [OF Cons.prems(1) v(2)] Cons.prems(1) show ?thesis by (cases n) simp_all
  qed
qed

lemma readdirSync_names:
  assumes "readdirSync fs U = Inr files" and "wf_fs fs"
  shows "\<forall>f \<in> set files. valid_name f"
proof
  fix f assume "f \<in> set files"
  with readdirSync_Inr [OF assms(1)]
  obtain k v where kv: "(k, v) \<in> set fs" "k \<noteq> []" "last k = f" by auto
  then have "k \<in> fst ` set fs" by (metis fst_conv image_eqI)
  with assms(2) kv(2,3) show "valid_name f" by (auto simp: wf_fs_iff)
qed

lemma ex_backup_run:
  "backupImages ex_mw ''2024-05-01'' ex_fs_orphan = (ex_fs_backed, 2, Completed 2)"
  by (simp add: ex_defs handler_defs path_defs fs_defs)

subsection \<open>The orphan loop\<close>

lemma readdirSync_mem_iff:
  assumes "readdirSync fs U = Inr files"
  shows "(f \<in> set files) = (lookup fs (segs U @ [f]) \<noteq> None)"
proof
  assume "f \<in> set files"
  with assms show "lookup fs (segs U @ [f]) \<noteq> None" by (rule readdirSync_mem)
next
  assume "lookup fs (segs U @ [f]) \<noteq> None"
  then have "segs U @ [f] \<in> fst ` set fs" by (simp add: lookup_None_iff)
  then obtain v where "(segs U @ [f], v) \<in> set fs" by auto
  then have "(\<lambda>(k, v). last k) (segs U @ [f], v)
               \<in> (\<lambda>(k, v). last k) ` set (filter (\<lambda>(k, v). k \<noteq> [] \<and> butlast k = segs U) fs)"
    by (intro imageI) simp
  with readdirSync_Inr [OF assms] show "f \<in> set files" by simp
qed

lemma unlinkSync_plain:
  "unlinkSync fs (Path k False) =
     (case lookup fs k of Some (File b) \<Rightarrow> Inr (remove k fs) | _ \<Rightarrow> Inl IoError)"
  by (simp add: unlinkSync_def split: option.splits node.splits)

lemma cleanupLoop_effect:
  assumes "\<forall>f \<in> set files. valid_name f" and "\<forall>s \<in> set (segs U). proper s"
    and "cleanupLoop U used files fs n = (fs', n')"
  shows "lookup fs' q =
           (if (\<exists>f \<in> set files. q = segs U @ [f] \<and> ''uploads/'' @ f \<notin> set used)
               \<and> (\<exists>b. lookup fs q = Some (File b))
            then None else lookup fs q)"
  using assms(1,3)
proof (induction files arbitrary: fs n)
  case Nil
  then show ?case by simp
next
  case (Cons f files)
  from Cons.prems(1) have "valid_name f" by simp
  with assms(2) have pj: "path_join U [f] = Path (segs U @ [f]) False"
    by (rule path_join_valid_name)
  from Cons.prems(1) have rest: "\<forall>f \<in> set files. valid_name f" by simp
  show ?case
  proof (cases "''uploads/'' @ f \<in> set used")
    case True
    with Cons.prems(2) have "cleanupLoop U used files fs n = (fs', n')" by (simp add: Let_def)
    from Cons.IH [OF rest this] True show ?thesis by auto
  next
    case False
    show ?thesis
    proof (cases "\<exists>b. lookup fs (segs U @ [f]) = Some (File b)")
      case True
      then obtain b where b: "lookup fs (segs U @ [f]) = Some (File b)" by blast
      with False Cons.prems(2) pj
      have "cleanupLoop U used files (remove (segs U @ [f]) fs) (n + 1) = (fs', n')"
        by (simp add: Let_def unlinkSync_plain)
      from Cons.IH [OF rest this] False b show ?thesis
        by (auto simp: lookup_remove)
    next
      case noFile: False
      then have "unlinkSync fs (Path (segs U @ [f]) False) = Inl IoError"
        by (auto simp: unlinkSync_plain split: option.splits node.splits)
      with False Cons.prems(2) pj have "cleanupLoop U used files fs n = (fs', n')"
        by (simp add: Let_def)
      from Cons.IH [OF rest this] noFile show ?thesis by auto
    qed
  qed
qed

lemma cleanupLoop_noop:
  assumes "\<forall>f \<in> set files. valid_name f" and "\<forall>s \<in> set (segs U). proper s"
    and "\<forall>f \<in> set files. ''uploads/'' @ f \<in> set used \<or> (\<forall>b. lookup fs (segs U @ [f]) \<noteq> Some (File b))"
  shows "cleanupLoop U used files fs n = (fs, n)"
  using assms(1,3)
proof (induction files)
  case Nil
  then show ?case by simp
next
  case (Cons f files)
  from Cons.prems(1) have "valid_name f" by simp
  with assms(2) have pj: "path_join U [f] = Path (segs U @ [f]) False"
    by (rule path_join_valid_name)
  from Cons.prems have IH: "cleanupLoop U used files fs n = (fs, n)"
    by (intro Cons.IH) simp_all
  show ?case
  proof (cases "''uploads/'' @ f \<in> set used")
    case True
    with IH show ?thesis by (simp add: Let_def)
  next
    case False
    with Cons.prems(2) have "\<forall>b. lookup fs (segs U @ [f]) \<noteq> Some (File b)" by simp
    then have "unlinkSync fs (Path (segs U @ [f]) False) = Inl IoError"
      by (auto simp: unlinkSync_plain split: option.splits node.splits)
    with False IH pj show ?thesis by (simp add: Let_def)
  qed
qed

lemma ex_cleanup_run:
  "cleanupOrphanedImages ex_mw ex_fs_orphan ex_db1 = (ex_fs_after, Completed 1)"
  by (simp add: ex_defs handler_defs path_defs fs_defs str_defs db_defs)


subsection \<open>Replacing a document in the catalog\<close>

lemma find_map_replace:
  assumes "find P xs = Some x" and "P (f x)"
  shows "find P (map (\<lambda>q. if q = x then f x else q) xs) = Some (f x)"
  using assms(1)
proof (induction xs)
  case Nil
  then show ?case by simp
next
  case (Cons a xs)
  show ?case
  proof (cases "P a")
    case True
    with Cons.prems have "a = x" by simp
    with assms(2) show ?thesis by simp
  next
    case False
    with Cons.prems have rest: "find P xs = Some x" by simp
    then have "P x" by (auto simp: find_Some_iff)
    with False have "a \<noteq> x" by auto
    with False Cons.IH [OF rest] show ?thesis by simp
  qed
qed

section \<open>C1: a reference is saved only after its blob was checked\<close>

text \<open>
  C1. Whenever \<open>createProduct\<close> changes the catalog, it appended exactly one document, that
  document carries a non-empty reference \<open>r\<close>, the response is 201, and
  \<open>validateImageFile\<close> holds for \<open>r\<close> on the file system the handler leaves behind, which is
  the file system at the moment of the save: nothing touches the files between the check of
  line 186 and \<open>newProduct.save()\<close>.
\<close>

theorem createProduct_saves_checked_reference:
  assumes "createProduct e req fs d = (resp, fs', d')" and "d' \<noteq> d"
  shows "\<exists>p r. docs d' = docs d @ [p] \<and> imageUrl p = Ref r \<and> r \<noteq> [] \<and>
           validateImageFile (dirname e) fs' (Ref r) \<and> status resp = 201"
  using assms
  by (auto simp: createProduct_def Product_save_def split: step.splits if_splits sum.splits)

theorem createProduct_saves_checked_reference_witness:
  "ex_db\<lparr>docs := [ex_product]\<rparr> \<noteq> ex_db \<and>
   (\<exists>p r. docs (ex_db\<lparr>docs := [ex_product]\<rparr>) = docs ex_db @ [p] \<and> imageUrl p = Ref r \<and> r \<noteq> [] \<and>
      validateImageFile (dirname ex_env) ex_fs_after (Ref r))"
proof -
  have changed: "ex_db\<lparr>docs := [ex_product]\<rparr> \<noteq> ex_db"
    by (simp add: ex_db_def)
  from createProduct_saves_checked_reference [OF ex_create_run changed] changed
  show ?thesis by blast
qed

section \<open>C2: the validator and absolute URLs\<close>

text \<open>
  C2, as stated, fails: \<open>validateImageFile\<close> has no case for absolute URLs. With nothing
  stored under the name \<open>https:\<close> below the project root, the check of an absolute URL is
  false.
\<close>

theorem validateImageFile_absolute_url_counterexample:
  "\<not> validateImageFile [''app'', ''controllers'']
       [([''app''], Dir), ([''app'', ''uploads''], Dir)]
       (Ref ''https://cdn.example.com/perfume.png'')"
  by (simp add: validateImageFile_def path_defs fs_defs str_defs)

text \<open>
  C2, amended. A reference that begins with \<open>http\<close> is looked up in the file system like
  any other non-empty reference: the check is the existence test of
  \<open>path.join(__dirname, '..', reference)\<close>. Every non-empty reference is checked against the
  file system, at the path it names below the project root; only an empty, \<open>null\<close> or
  \<open>undefined\<close> reference is answered, with false, without a look at the file system.
\<close>

theorem validateImageFile_absolute_url_checked:
  "(startsWith u ''http'' \<longrightarrow>
      validateImageFile d fs (Ref u) = existsSync fs (path_join (Path d False) [''..'', u])) \<and>
   (u \<noteq> [] \<longrightarrow> validateImageFile d fs (Ref u) = existsSync fs (storePath d u)) \<and>
   (\<not> truthyRef r \<longrightarrow> \<not> validateImageFile d fs r)"
proof (intro conjI impI)
  assume "startsWith u ''http''"
  from startsWith_http [OF this]
  show "validateImageFile d fs (Ref u) = existsSync fs (path_join (Path d False) [''..'', u])"
    by (simp add: validateImageFile_def)
next
  assume "u \<noteq> []"
  then show "validateImageFile d fs (Ref u) = existsSync fs (storePath d u)"
    by (simp add: validateImageFile_def storePath_def)
next
  assume "\<not> truthyRef r"
  then show "\<not> validateImageFile d fs r"
    by (cases r) (simp_all add: validateImageFile_def)
qed

theorem validateImageFile_absolute_url_checked_witness:
  "startsWith ''https://cdn.example.com/perfume.png'' ''http'' \<and>
   validateImageFile [''app'', ''controllers''] [([''app''], Dir)]
       (Ref ''https://cdn.example.com/perfume.png'') = False \<and>
   validateImageFile [''app'', ''controllers'']
       [([''app''], Dir), ([''app'', ''https:''], Dir), ([''app'', ''https:'', ''cdn.example.com''], Dir),
        ([''app'', ''https:'', ''cdn.example.com'', ''perfume.png''], File [])]
       (Ref ''https://cdn.example.com/perfume.png'') = True \<and>
   validateImageFile (dirname ex_env) ex_fs_after (imageUrl ex_product) = True \<and>
   validateImageFile (dirname ex_env) ex_fs_after (imageUrl ex_bare) = False"
proof -
  let ?u = "''https://cdn.example.com/perfume.png''"
  let ?fs = "[([''app''], Dir), ([''app'', ''https:''], Dir), ([''app'', ''https:'', ''cdn.example.com''], Dir),
        ([''app'', ''https:'', ''cdn.example.com'', ''perfume.png''], File [])]"
  have h: "startsWith ?u ''http''"
    by (simp add: startsWith_def)
  have falsy: "\<not> truthyRef (imageUrl ex_bare)" by (simp add: ex_defs)
  have "existsSync ex_fs_after
          (storePath (dirname ex_env) ''/uploads/base64-1700000000000-82mvyr.png'')"
    by (simp add: ex_defs path_defs fs_defs str_defs)
  with h falsy
    validateImageFile_absolute_url_checked [of ?u "[''app'', ''controllers'']" "[([''app''], Dir)]"]
    validateImageFile_absolute_url_checked [of ?u "[''app'', ''controllers'']" ?fs]
    validateImageFile_absolute_url_checked
      [of "''/uploads/base64-1700000000000-82mvyr.png''" "dirname ex_env" ex_fs_after "imageUrl ex_bare"]
  show ?thesis
    by (simp add: path_defs fs_defs ex_product_def)
qed

section \<open>C3: malformed inline-encoded strings\<close>

text \<open>
  C3, as stated, fails for a string without the \<open>data:image\<close> prefix: the base64 branch is
  guarded by \<open>startsWith('data:image')\<close>, so such a string is not treated as an inline image
  and the request runs into the later checks; here it is answered ``Image is required''.
\<close>

theorem createProduct_malformed_inline_counterexample:
  "match_data_uri ''image/png;base64,AAAA'' = None \<and>
   createProduct ex_env (ex_req\<lparr>body_imageUrl := JStr ''image/png;base64,AAAA''\<rparr>) ex_fs ex_db
     = (Response 400 (Message ''Image is required''), ex_fs, ex_db) \<and>
   Response 400 (Message ''Image is required'') \<noteq> Response 400 (Message ''Invalid image format'')"
  by (simp add: ex_defs handler_defs str_defs)

text \<open>
  C3, amended. For a create request without an uploaded file whose inline string does not
  match the data-URI shape: if the string begins with \<open>data:image\<close> the answer is 400
  ``Invalid image format''; otherwise the string is ignored and the answer is the
  missing-fields error or ``Image is required''. In both cases the catalog is unchanged and
  the files of the file system are the same as before (at most the uploads directory was
  created).
\<close>

theorem createProduct_malformed_inline:
  assumes "req_file req = None" and "body_imageUrl req = JStr s" and "match_data_uri s = None"
  shows "\<exists>fs'. createProduct e req fs d =
           (if startsWith s ''data:image''
            then Response 400 (Message ''Invalid image format'')
            else if \<not> truthy (body_title req) \<or> \<not> truthy (body_rating req)
                    \<or> \<not> truthy (body_price req) \<or> \<not> truthy (body_discount req)
            then Response 400 (Message ''Please provide all required fields'')
            else Response 400 (Message ''Image is required''), fs', d)
         \<and> (\<forall>p b. (lookup fs' p = Some (File b)) = (lookup fs p = Some (File b)))"
proof -
  obtain fs' where
    img: "createImage e req fs =
           (if startsWith s ''data:image''
            then Reply (Response 400 (Message ''Invalid image format'')) fs'
            else Continue [] fs')"
    and same: "\<forall>p b. (lookup fs' p = Some (File b)) = (lookup fs p = Some (File b))"
    using createImage_malformed [OF assms] by blast
  have "createProduct e req fs d =
           (if startsWith s ''data:image''
            then Response 400 (Message ''Invalid image format'')
            else if \<not> truthy (body_title req) \<or> \<not> truthy (body_rating req)
                    \<or> \<not> truthy (body_price req) \<or> \<not> truthy (body_discount req)
            then Response 400 (Message ''Please provide all required fields'')
            else Response 400 (Message ''Image is required''), fs', d)"
    by (simp add: createProduct_def img)
  with same show ?thesis by blast
qed

theorem createProduct_malformed_inline_witness:
  "req_file (ex_req\<lparr>body_imageUrl := JStr ''data:image/png;AAAA''\<rparr>) = None \<and>
   match_data_uri ''data:image/png;AAAA'' = None \<and>
   fst (createProduct ex_env (ex_req\<lparr>body_imageUrl := JStr ''data:image/png;AAAA''\<rparr>) ex_fs ex_db)
     = Response 400 (Message ''Invalid image format'')"
proof -
  have a: "req_file (ex_req\<lparr>body_imageUrl := JStr ''data:image/png;AAAA''\<rparr>) = None"
    by (simp add: ex_req_def)
  have b: "body_imageUrl (ex_req\<lparr>body_imageUrl := JStr ''data:image/png;AAAA''\<rparr>)
             = JStr ''data:image/png;AAAA''"
    by simp
  have c: "match_data_uri ''data:image/png;AAAA'' = None"
    by (simp add: str_defs)
  have d: "startsWith ''data:image/png;AAAA'' ''data:image''"
    by (simp add: startsWith_def)
  from createProduct_malformed_inline [OF a b c, of ex_env ex_fs ex_db] a c d
  show ?thesis by auto
qed

section \<open>C4: a second backup on the same day copies nothing\<close>

text \<open>
  C4. On a well-formed file system, after one run of \<open>backupImages\<close> a second run for the
  same date leaves the file system exactly as the first run left it and copies zero files
  (\<open>backedUpCount\<close> stays 0); it ends as the first run did. The first run never overwrites an
  entry that already existed, so a file already present in the day's partition is not copied
  again.
\<close>

theorem backupImages_idempotent:
  assumes wf: "wf_fs fs" and dir: "list_all valid_name d"
    and run: "backupImages d today fs = (fs', n, out)"
  shows "backupImages d today fs' = (fs', 0, case out of Completed _ \<Rightarrow> Completed 0 | _ \<Rightarrow> out) \<and>
         (\<forall>q. lookup fs q \<noteq> None \<longrightarrow> lookup fs' q = lookup fs q)"
proof -
  let ?U = "uploadsDirOf d"
  let ?B = "path_join (Path d False) [''..'', ''backups'', ''images'', today]"
  from dir have noslash: "\<forall>s \<in> set (segs (Path d False)). CHR ''/'' \<notin> set s"
    by (simp add: list_all_iff valid_name_def)
  have Bvalid: "\<forall>s \<in> set (segs ?B). valid_name s"
    using noslash by (rule path_join_valid_segs)
  have Bproper: "\<forall>s \<in> set (segs ?B). proper s" by (rule path_join_proper)
  show ?thesis
  proof (cases "existsSync fs ?U")
    case False
    with run have "fs' = fs" "n = 0" "out = Skipped" by (simp_all add: backupImages_def)
    with False show ?thesis by (simp add: backupImages_def)
  next
    case exU: True
    obtain thrown fs1 where
      mk: "(if \<not> existsSync fs ?B then mkdirSync fs ?B else (None, fs)) = (thrown, fs1)"
      by (cases "if \<not> existsSync fs ?B then mkdirSync fs ?B else (None, fs)")
    then have fs1: "fs1 = snd (mkdirs [] (segs ?B) fs) \<or> fs1 = fs"
      by (auto simp: mkdirSync_def split: if_splits)
    have keep1: "lookup fs1 q = lookup fs q" if "lookup fs q \<noteq> None" for q
      using fs1 mkdirs_keeps [OF that, of "[]" "segs ?B"] by auto
    have wf1: "wf_fs fs1"
      using fs1 wf wf_fs_mkdirs [OF wf, of "[]" "segs ?B"] Bvalid by auto
    have exU1: "existsSync fs1 ?U"
    proof -
      from exU have "lookup fs (segs ?U) \<noteq> None" by (auto simp: existsSync_lookup)
      from keep1 [OF this] exU show ?thesis by (simp add: existsSync_def)
    qed
    show ?thesis
    proof (cases thrown)
      case (Some err)
      with mk have noB: "\<not> existsSync fs ?B" and mkd: "mkdirs [] (segs ?B) fs = (Some err, fs1)"
        by (auto simp: mkdirSync_def split: if_splits)
      from run exU mk Some have res: "fs' = fs1" "n = 0" "out = Failed err"
        by (simp_all add: backupImages_def)
      from mkdirs_failure_target [OF mkd] have "lookup fs1 (segs ?B) = lookup fs (segs ?B)"
        by simp
      with noB have noB1: "\<not> existsSync fs1 ?B" by (simp add: existsSync_def)
      from mkdirs_again [OF mkd] have "mkdirSync fs1 ?B = (Some err, fs1)"
        by (simp add: mkdirSync_def)
      with exU1 noB1 have "backupImages d today fs1 = (fs1, 0, Failed err)"
        by (simp add: backupImages_def)
      with res keep1 show ?thesis by simp
    next
      case None
      have exB1: "existsSync fs1 ?B"
      proof (cases "existsSync fs ?B")
        case True
        with mk show ?thesis by simp
      next
        case False
        with mk None have "mkdirs [] (segs ?B) fs = (None, fs1)" by (simp add: mkdirSync_def)
        from mkdirs_success [OF this] show ?thesis by (simp add: existsSync_def)
      qed
      show ?thesis
      proof (cases "readdirSync fs1 ?U")
        case (Inl err)
        with run exU mk None have res: "fs' = fs1" "n = 0" "out = Failed err"
          by (simp_all add: backupImages_def)
        from exU1 exB1 Inl have "backupImages d today fs1 = (fs1, 0, Failed err)"
          by (simp add: backupImages_def)
        with res keep1 show ?thesis by simp
      next
        case (Inr files)
        obtain r fs2 n2 where loop: "backupLoop ?U ?B files fs1 0 = (r, fs2, n2)"
          by (cases "backupLoop ?U ?B files fs1 0") auto
        from run exU mk None Inr loop
        have res: "fs' = fs2" "n = n2"
          "out = (case r of Some err \<Rightarrow> Failed err | None \<Rightarrow> Completed n2)"
          by (auto simp: backupImages_def split: option.splits)
        have exU2: "existsSync fs2 ?U" using loop exU1 by (rule backupLoop_exists)
        have exB2: "existsSync fs2 ?B" using loop exB1 by (rule backupLoop_exists)
        have names: "\<forall>f \<in> set files. valid_name f" using Inr wf1 by (rule readdirSync_names)
        have list2: "readdirSync fs2 ?U = Inr files"
          using loop Inr subset_refl names Bproper by (rule backupLoop_listing)
        have again: "backupLoop ?U ?B files fs2 0 = (r, fs2, 0)"
          using loop by (rule backupLoop_again)
        from exU2 exB2 list2 again
        have "backupImages d today fs2 =
                (fs2, 0, case r of Some err \<Rightarrow> Failed err | None \<Rightarrow> Completed 0)"
          by (simp add: backupImages_def split: option.splits)
        moreover have "lookup fs2 q = lookup fs q" if "lookup fs q \<noteq> None" for q
        proof -
          from keep1 [OF that] that have "lookup fs1 q \<noteq> None" by simp
          from backupLoop_keeps [OF loop this] keep1 [OF that] show ?thesis by simp
        qed
        ultimately show ?thesis using res by (simp split: option.splits)
      qed
    qed
  qed
qed

theorem backupImages_idempotent_witness:
  "wf_fs ex_fs_orphan \<and> list_all valid_name ex_mw \<and>
   backupImages ex_mw ''2024-05-01'' ex_fs_orphan = (ex_fs_backed, 2, Completed 2) \<and>
   backupImages ex_mw ''2024-05-01'' ex_fs_backed = (ex_fs_backed, 0, Completed 0)"
proof -
  have wf: "wf_fs ex_fs_orphan" by (simp add: ex_defs fs_defs)
  have dir: "list_all valid_name ex_mw" by (simp add: ex_defs fs_defs)
  from backupImages_idempotent [OF wf dir ex_backup_run] wf dir ex_backup_run
  show ?thesis by simp
qed

section \<open>C5: the old blob goes after the record is updated\<close>

text \<open>
  C5. An update request finds its record, whose reference \<open>old\<close> is non-empty, supplies a new
  image (an uploaded file with a non-empty name, or an inline \<open>data:image\<close> string), and the
  image block confirms the new blob and yields the reference \<open>new\<close> on file system \<open>fs1\<close>.
  Then the request is answered 200, whatever happens to the old file. The catalog returned is
  the old one with the found record replaced by the updated record, which carries \<open>new\<close> and
  the merged fields and is what a lookup by the request's id now finds, so no record is left
  pointing at the old blob. On the file system left behind:
  if the two paths differ, the new blob is present, the old path is gone unless it is a
  directory (the one case in which \<open>unlinkSync\<close> throws here), and in that case nothing was
  changed; if the two paths are equal, nothing was deleted.
\<close>

theorem updateProduct_replaces_old_blob:
  assumes id: "params_id req \<noteq> []"
    and found: "Product_findById d (params_id req) = Inr (Some product)"
    and old: "imageUrl product = Ref old" "old \<noteq> []"
    and supplied: "req_file req \<noteq> None \<or>
                   (\<exists>s. body_imageUrl req = JStr s \<and> s \<noteq> [] \<and> startsWith s ''data:image'')"
    and named: "case req_file req of Some f \<Rightarrow> f \<noteq> [] | None \<Rightarrow> True"
    and img: "updateImage e req fs product = Continue (Ref new) fs1"
  shows "\<exists>po fs' d'.
           updateProduct e req fs d = (Response 200 (ProductJson po), fs', d') \<and>
           imageUrl (doc po) = Ref new \<and>
           doc po = product\<lparr>title := orJs (body_title req) (title product),
                              description := orJs (body_description req) (description product),
                              rating := orJs (body_rating req) (rating product),
                              price := orJs (body_price req) (price product),
                              discount := orJs (body_discount req) (discount product),
                              imageUrl := Ref new\<rparr> \<and>
           d' = d\<lparr>docs := map (\<lambda>q. if q = product then doc po else q) (docs d)\<rparr> \<and>
           doc po \<in> set (docs d') \<and>
           Product_findById d' (params_id req) = Inr (Some (doc po)) \<and>
           (storePath (dirname e) old \<noteq> storePath (dirname e) new \<longrightarrow>
              existsSync fs' (storePath (dirname e) new) \<and>
              (lookup fs1 (segs (storePath (dirname e) old)) \<noteq> Some Dir \<longrightarrow>
                 \<not> existsSync fs' (storePath (dirname e) old)) \<and>
              (lookup fs1 (segs (storePath (dirname e) old)) = Some Dir \<longrightarrow> fs' = fs1)) \<and>
           (storePath (dirname e) old = storePath (dirname e) new \<longrightarrow> fs' = fs1)"
proof -
  let ?old = "storePath (dirname e) old"
  let ?new = "storePath (dirname e) new"
  let ?upd = "\<lambda>p. p\<lparr>title := orJs (body_title req) (title product),
                       description := orJs (body_description req) (description product),
                       rating := orJs (body_rating req) (rating product),
                       price := orJs (body_price req) (price product),
                       discount := orJs (body_discount req) (discount product),
                       imageUrl := Ref new\<rparr>"
  let ?fs' = "if ?old \<noteq> ?new \<and> (\<exists>b. lookup fs1 (segs ?old) = Some (File b)) \<and> \<not> trailing ?old
              then remove (segs ?old) fs1 else fs1"
  from found have on: "online d" and fnd: "find (\<lambda>p. pid p = params_id req) (docs d) = Some product"
    by (auto simp: Product_findById_def split: if_splits)
  define d' where "d' = d\<lparr>docs := map (\<lambda>q. if q = product then ?upd product else q) (docs d)\<rparr>"
  from on fnd have upd: "Product_findByIdAndUpdate d (params_id req) ?upd = Inr (Some (?upd product), d')"
    by (simp add: Product_findByIdAndUpdate_def d'_def)
  from fnd have inold: "product \<in> set (docs d)" and pidp: "pid product = params_id req"
    by (auto simp: find_Some_iff)
  from inold have member: "?upd product \<in> set (docs d')"
    by (auto simp: d'_def intro!: image_eqI [of _ _ product])
  have "find (\<lambda>p. pid p = params_id req) (map (\<lambda>q. if q = product then ?upd product else q) (docs d))
          = Some (?upd product)"
    using fnd pidp by (intro find_map_replace) simp_all
  with on have refound: "Product_findById d' (params_id req) = Inr (Some (?upd product))"
    by (simp add: Product_findById_def d'_def)
  have oldp: "oldImagePathOf e product = Some ?old"
    using old by (simp add: oldImagePathOf_def)
  have run: "updateProduct e req fs d =
               (Response 200
                  (ProductJson
                     (ProductObj (?upd product)
                        (Present (validateImageFile (dirname e) ?fs' (imageUrl (?upd product))))
                        (Present (getFullImageUrl (protocol req) (host req) (imageUrl (?upd product)))))),
                ?fs', d')"
    unfolding updateProduct_def
    by (simp only: id found img upd oldp cleanupOldImage_result if_False sum.case option.case
          step.case prod.case)
  have present: "existsSync fs1 ?new"
    using img supplied named by (rule updateImage_new_present)
  have new_stays: "existsSync ?fs' ?new" if "?old \<noteq> ?new"
  proof (cases "(\<exists>b. lookup fs1 (segs ?old) = Some (File b)) \<and> \<not> trailing ?old")
    case False
    with present show ?thesis by auto
  next
    case True
    then obtain b where b: "lookup fs1 (segs ?old) = Some (File b)" and tr: "\<not> trailing ?old"
      by blast
    have "segs ?new \<noteq> segs ?old"
    proof
      assume eq: "segs ?new = segs ?old"
      with that tr have "trailing ?new" by (metis path.expand)
      with b eq have "\<not> existsSync fs1 ?new" by (simp add: existsSync_def)
      with present show False by simp
    qed
    then have "lookup (remove (segs ?old) fs1) (segs ?new) = lookup fs1 (segs ?new)"
      by (auto simp: lookup_remove)
    with present True that show ?thesis by (simp add: existsSync_def)
  qed
  have old_gone: "\<not> existsSync ?fs' ?old"
    if "?old \<noteq> ?new" "lookup fs1 (segs ?old) \<noteq> Some Dir"
  proof (cases "lookup fs1 (segs ?old)")
    case None
    then show ?thesis by (simp add: existsSync_def)
  next
    case (Some n)
    with that(2) obtain b where b: "lookup fs1 (segs ?old) = Some (File b)" by (cases n) auto
    then have ne: "segs ?old \<noteq> []" by (auto simp: lookup_def)
    show ?thesis
    proof (cases "trailing ?old")
      case True
      with b show ?thesis by (simp add: existsSync_def)
    next
      case False
      with b that(1) ne show ?thesis by (simp add: existsSync_def lookup_remove)
    qed
  qed
  have dir_kept: "?fs' = fs1" if "lookup fs1 (segs ?old) = Some Dir"
    using that by simp
  have same_kept: "?fs' = fs1" if "?old = ?new"
    using that by simp
  from run new_stays old_gone dir_kept same_kept member refound d'_def show ?thesis
    by (intro exI [of _ "ProductObj (?upd product)
                        (Present (validateImageFile (dirname e) ?fs' (imageUrl (?upd product))))
                        (Present (getFullImageUrl (protocol req) (host req) (imageUrl (?upd product))))"]
              exI [of _ ?fs'] exI [of _ d'])
       (simp del: split_paired_Ex)
qed

theorem updateProduct_replaces_old_blob_witness:
  "Product_findById ex_db1 (params_id ex_replace) = Inr (Some ex_product) \<and>
   body_imageUrl ex_replace = JStr ''data:image/jpeg;base64,BBBB'' \<and>
   updateImage ex_env2 ex_replace ex_fs_after ex_product
     = Continue (Ref ''/uploads/base64-1700000005000-x7q4ab.jpeg'')
         (ex_fs_after @ [([''app'', ''uploads'', ''base64-1700000005000-x7q4ab.jpeg''], File [0, 0, 0])]) \<and>
   storePath (dirname ex_env2) ''/uploads/base64-1700000000000-82mvyr.png''
     \<noteq> storePath (dirname ex_env2) ''/uploads/base64-1700000005000-x7q4ab.jpeg'' \<and>
   fst (snd (updateProduct ex_env2 ex_replace ex_fs_after ex_db1)) = ex_fs_replaced \<and>
   status (fst (updateProduct ex_env2 ex_replace ex_fs_after ex_db1)) = 200 \<and>
   snd (snd (updateProduct ex_env2 ex_replace ex_fs_after ex_db1))
     = ex_db1\<lparr>docs := [ex_product\<lparr>imageUrl := Ref ''/uploads/base64-1700000005000-x7q4ab.jpeg''\<rparr>]\<rparr> \<and>
   Product_findById (snd (snd (updateProduct ex_env2 ex_replace ex_fs_after ex_db1)))
       (params_id ex_replace)
     = Inr (Some (ex_product\<lparr>imageUrl := Ref ''/uploads/base64-1700000005000-x7q4ab.jpeg''\<rparr>)) \<and>
   existsSync ex_fs_replaced
     (storePath (dirname ex_env2) ''/uploads/base64-1700000005000-x7q4ab.jpeg'') \<and>
   \<not> existsSync ex_fs_replaced
     (storePath (dirname ex_env2) ''/uploads/base64-1700000000000-82mvyr.png'') \<and>
   unlinkSync
     (ex_fs_after @ [([''app'', ''uploads'', ''base64-1700000005000-x7q4ab.jpeg''], File [0, 0, 0])])
     (storePath (dirname ex_env2) ''/uploads'') = Inl IoError \<and>
   status (fst (updateProduct ex_env2 ex_replace ex_fs_after (ex_db1\<lparr>docs := [ex_product_dir]\<rparr>)))
     = 200"
proof -
  let ?old = "''/uploads/base64-1700000000000-82mvyr.png''"
  let ?new = "''/uploads/base64-1700000005000-x7q4ab.jpeg''"
  let ?fs1 = "ex_fs_after @ [([''app'', ''uploads'', ''base64-1700000005000-x7q4ab.jpeg''], File [0, 0, 0])]"
  have id: "params_id ex_replace \<noteq> []" by (simp add: ex_defs)
  have found: "Product_findById ex_db1 (params_id ex_replace) = Inr (Some ex_product)"
    by (simp add: ex_defs db_defs)
  have old: "imageUrl ex_product = Ref ?old" "?old \<noteq> []" by (simp_all add: ex_defs)
  have body: "body_imageUrl ex_replace = JStr ''data:image/jpeg;base64,BBBB''"
    by (simp add: ex_defs)
  have supplied: "req_file ex_replace \<noteq> None \<or>
      (\<exists>s. body_imageUrl ex_replace = JStr s \<and> s \<noteq> [] \<and> startsWith s ''data:image'')"
    by (simp add: body startsWith_def)
  have named: "case req_file ex_replace of Some f \<Rightarrow> f \<noteq> [] | None \<Rightarrow> True"
    by (simp add: ex_defs)
  have img: "updateImage ex_env2 ex_replace ex_fs_after ex_product = Continue (Ref ?new) ?fs1"
    by (simp add: ex_defs handler_defs path_defs fs_defs str_defs)
  have differ: "storePath (dirname ex_env2) ?old \<noteq> storePath (dirname ex_env2) ?new"
    by (simp add: ex_defs path_defs str_defs)
  have isfile: "lookup ?fs1 (segs (storePath (dirname ex_env2) ?old)) \<noteq> Some Dir"
    by (simp add: ex_defs path_defs str_defs lookup_def)
  from updateProduct_replaces_old_blob [OF id found old supplied named img]
  obtain po fs' d' where
    run: "updateProduct ex_env2 ex_replace ex_fs_after ex_db1 = (Response 200 (ProductJson po), fs', d')"
    and refound: "Product_findById d' (params_id ex_replace) = Inr (Some (doc po))"
    and concl: "storePath (dirname ex_env2) ?old \<noteq> storePath (dirname ex_env2) ?new \<longrightarrow>
              existsSync fs' (storePath (dirname ex_env2) ?new) \<and>
              (lookup ?fs1 (segs (storePath (dirname ex_env2) ?old)) \<noteq> Some Dir \<longrightarrow>
                 \<not> existsSync fs' (storePath (dirname ex_env2) ?old))"
    by blast
  from run ex_replace_run have fs': "fs' = ex_fs_replaced" by simp
  from run ex_replace_run have d': "d' = ex_db1\<lparr>docs := [ex_product\<lparr>imageUrl := Ref ?new\<rparr>]\<rparr>"
    and po: "doc po = ex_product\<lparr>imageUrl := Ref ?new\<rparr>"
    by auto
  from concl differ isfile fs' have
    "existsSync ex_fs_replaced (storePath (dirname ex_env2) ?new)"
    "\<not> existsSync ex_fs_replaced (storePath (dirname ex_env2) ?old)"
    by simp_all
  moreover have "unlinkSync ?fs1 (storePath (dirname ex_env2) ''/uploads'') = Inl IoError"
    by (simp add: ex_defs path_defs fs_defs str_defs)
  ultimately show ?thesis
    using found body img differ run fs' d' po refound ex_replace_dir_run by simp
qed

section \<open>C6: what the orphan sweep deletes\<close>

text \<open>
  C6, as stated, fails: an entry of the uploads directory that no record references stays
  when \<open>unlinkSync\<close> throws on it, which the loop's inner \<open>catch\<close> logs and passes over.
  Here the entry is the subdirectory \<open>tmp\<close>: it is listed, it is not in the live set, and
  the sweep completes with it still in place, having deleted nothing.
\<close>

theorem cleanupOrphanedImages_counterexample:
  "readdirSync ex_fs_subdir (uploadsDirOf ex_mw) = Inr [''base64-1700000000000-82mvyr.png'', ''tmp''] \<and>
   usedImages (docs ex_db1) = Inr [''uploads/base64-1700000000000-82mvyr.png''] \<and>
   cleanupOrphanedImages ex_mw ex_fs_subdir ex_db1 = (ex_fs_subdir, Completed 0)"
  by (simp add: ex_defs handler_defs path_defs fs_defs str_defs db_defs)

text \<open>
  C6, amended. On a well-formed file system a second run of the sweep right after a first one
  leaves the file system as the first run left it and deletes zero files. When the uploads
  directory exists, the catalog query succeeds and every record carries a string reference,
  the first run completes, and afterwards exactly the regular files directly under the
  uploads directory whose \<open>uploads/<name>\<close> is not among the references (each with one
  leading slash removed) are gone; every other entry, directories under uploads included, is
  as before.
\<close>

theorem cleanupOrphanedImages_exact:
  assumes wf: "wf_fs fs"
    and run: "cleanupOrphanedImages d fs database = (fs', out)"
  shows "cleanupOrphanedImages d fs' database
           = (fs', case out of Completed _ \<Rightarrow> Completed 0 | _ \<Rightarrow> out) \<and>
         (lookup fs (segs (uploadsDirOf d)) = Some Dir \<and> online database
            \<and> usedImages (docs database) = Inr used \<longrightarrow>
            (\<exists>n. out = Completed n) \<and>
            (\<forall>q. lookup fs' q =
                   (if (\<exists>f. q = segs (uploadsDirOf d) @ [f] \<and> ''uploads/'' @ f \<notin> set used)
                       \<and> (\<exists>b. lookup fs q = Some (File b))
                    then None else lookup fs q)))"
proof -
  let ?U = "uploadsDirOf d"
  have Uproper: "\<forall>s \<in> set (segs ?U). proper s" by (rule uploadsDir_proper)
  show ?thesis
  proof (cases "existsSync fs ?U")
    case False
    with run have "fs' = fs" "out = Skipped" by (simp_all add: cleanupOrphanedImages_def)
    with False show ?thesis by (auto simp: cleanupOrphanedImages_def existsSync_def)
  next
    case exU: True
    show ?thesis
    proof (cases "readdirSync fs ?U")
      case (Inl err)
      with run exU have "fs' = fs" "out = Failed err"
        by (simp_all add: cleanupOrphanedImages_def)
      with exU Inl show ?thesis by (auto simp: cleanupOrphanedImages_def readdirSync_def)
    next
      case (Inr files)
      from readdirSync_Inr [OF Inr] have Udir: "lookup fs (segs ?U) = Some Dir" by simp
      show ?thesis
      proof (cases "Product_find database")
        case (Inl err)
        with run exU Inr have "fs' = fs" "out = Failed err"
          by (simp_all add: cleanupOrphanedImages_def)
        with exU Inr Inl show ?thesis by (auto simp: cleanupOrphanedImages_def Product_find_def)
      next
        case found: (Inr products)
        then have products: "products = docs database" "online database"
          by (auto simp: Product_find_def split: if_splits)
        show ?thesis
        proof (cases "usedImages products")
          case (Inl err)
          with run exU Inr found have "fs' = fs" "out = Failed err"
            by (simp_all add: cleanupOrphanedImages_def)
          with exU Inr found Inl products show ?thesis
            by (auto simp: cleanupOrphanedImages_def)
        next
          case used: (Inr used')
          obtain n where loop: "cleanupLoop ?U used' files fs 0 = (fs', n)" and out: "out = Completed n"
            using run exU Inr found used
            by (auto simp: cleanupOrphanedImages_def split: prod.splits)
          have names: "\<forall>f \<in> set files. valid_name f" using Inr wf by (rule readdirSync_names)
          have eff: "lookup fs' q =
                       (if (\<exists>f. q = segs ?U @ [f] \<and> ''uploads/'' @ f \<notin> set used')
                           \<and> (\<exists>b. lookup fs q = Some (File b))
                        then None else lookup fs q)" for q
          proof -
            have "(\<exists>f \<in> set files. q = segs ?U @ [f] \<and> ''uploads/'' @ f \<notin> set used')
                    \<and> (\<exists>b. lookup fs q = Some (File b))
                  \<longleftrightarrow> (\<exists>f. q = segs ?U @ [f] \<and> ''uploads/'' @ f \<notin> set used')
                    \<and> (\<exists>b. lookup fs q = Some (File b))"
              using readdirSync_mem_iff [OF Inr] by auto
            with cleanupLoop_effect [OF names Uproper loop, of q] show ?thesis by simp
          qed
          have Udir': "lookup fs' (segs ?U) = Some Dir"
            using eff [of "segs ?U"] Udir by simp
          then have exU': "existsSync fs' ?U" by (simp add: existsSync_def)
          obtain files' where list': "readdirSync fs' ?U = Inr files'"
            using Udir' by (simp add: readdirSync_def)
          have sub: "f \<in> set files" if "f \<in> set files'" for f
          proof -
            from that have "lookup fs' (segs ?U @ [f]) \<noteq> None"
              using readdirSync_mem_iff [OF list'] by simp
            with eff [of "segs ?U @ [f]"] have "lookup fs (segs ?U @ [f]) \<noteq> None"
              by (auto split: if_splits)
            then show ?thesis using readdirSync_mem_iff [OF Inr] by simp
          qed
          with names have names': "\<forall>f \<in> set files'. valid_name f" by blast
          have idle: "\<forall>f \<in> set files'. ''uploads/'' @ f \<in> set used'
                        \<or> (\<forall>b. lookup fs' (segs ?U @ [f]) \<noteq> Some (File b))"
            using eff by (auto split: if_splits)
          have "cleanupLoop ?U used' files' fs' 0 = (fs', 0)"
            using names' Uproper idle by (rule cleanupLoop_noop)
          with exU' list' found used
          have again: "cleanupOrphanedImages d fs' database = (fs', Completed 0)"
            by (simp add: cleanupOrphanedImages_def)
          from used products have "used = used'" if "usedImages (docs database) = Inr used"
            using that by simp
          with again out eff show ?thesis by auto
        qed
      qed
    qed
  qed
qed

theorem cleanupOrphanedImages_exact_witness:
  "wf_fs ex_fs_orphan \<and>
   lookup ex_fs_orphan (segs (uploadsDirOf ex_mw)) = Some Dir \<and> online ex_db1 \<and>
   usedImages (docs ex_db1) = Inr [''uploads/base64-1700000000000-82mvyr.png''] \<and>
   cleanupOrphanedImages ex_mw ex_fs_orphan ex_db1 = (ex_fs_after, Completed 1) \<and>
   cleanupOrphanedImages ex_mw ex_fs_after ex_db1 = (ex_fs_after, Completed 0) \<and>
   lookup ex_fs_orphan [''app'', ''uploads'', ''orphan.png''] = Some (File [1]) \<and>
   lookup ex_fs_after [''app'', ''uploads'', ''orphan.png''] = None \<and>
   lookup ex_fs_after [''app'', ''uploads'', ''base64-1700000000000-82mvyr.png'']
     = lookup ex_fs_orphan [''app'', ''uploads'', ''base64-1700000000000-82mvyr.png'']"
proof -
  let ?used = "[''uploads/base64-1700000000000-82mvyr.png'']"
  have wf: "wf_fs ex_fs_orphan" by (simp add: ex_defs fs_defs)
  have U: "segs (uploadsDirOf ex_mw) = [''app'', ''uploads'']" by (simp add: ex_defs path_defs)
  have pre: "lookup ex_fs_orphan (segs (uploadsDirOf ex_mw)) = Some Dir \<and> online ex_db1
               \<and> usedImages (docs ex_db1) = Inr ?used"
    by (simp add: U) (simp add: ex_defs lookup_def str_defs)
  have orphan: "lookup ex_fs_orphan [''app'', ''uploads'', ''orphan.png''] = Some (File [1])"
    by (simp add: ex_defs lookup_def)
  from cleanupOrphanedImages_exact [OF wf ex_cleanup_run, of ?used] pre
  have again: "cleanupOrphanedImages ex_mw ex_fs_after ex_db1 = (ex_fs_after, Completed 0)"
    and eff: "\<And>q. lookup ex_fs_after q =
                   (if (\<exists>f. q = segs (uploadsDirOf ex_mw) @ [f] \<and> ''uploads/'' @ f \<notin> set ?used)
                       \<and> (\<exists>b. lookup ex_fs_orphan q = Some (File b))
                    then None else lookup ex_fs_orphan q)"
    by simp_all
  from eff [of "[''app'', ''uploads'', ''orphan.png'']"] orphan
  have gone: "lookup ex_fs_after [''app'', ''uploads'', ''orphan.png''] = None"
    by (simp add: U)
  from eff [of "[''app'', ''uploads'', ''base64-1700000000000-82mvyr.png'']"]
  have kept: "lookup ex_fs_after [''app'', ''uploads'', ''base64-1700000000000-82mvyr.png'']
                = lookup ex_fs_orphan [''app'', ''uploads'', ''base64-1700000000000-82mvyr.png'']"
    by (simp add: U)
  from wf pre ex_cleanup_run again orphan gone kept show ?thesis by simp
qed

section \<open>C7: a create request without an image\<close>

text \<open>
  C7, as stated, fails: the required-fields check (line 174) comes before the image check
  (line 180), so a request without image and without title is answered with the
  missing-fields error, not with ``Image is required''.
\<close>

theorem createProduct_without_image_counterexample:
  "req_file (ex_req\<lparr>body_title := JUndefined, body_imageUrl := JUndefined\<rparr>) = None \<and>
   createProduct ex_env (ex_req\<lparr>body_title := JUndefined, body_imageUrl := JUndefined\<rparr>) ex_fs ex_db
     = (Response 400 (Message ''Please provide all required fields''), ex_fs, ex_db) \<and>
   Response 400 (Message ''Please provide all required fields'')
     \<noteq> Response 400 (Message ''Image is required'')"
  by (simp add: ex_defs handler_defs str_defs)

text \<open>
  C7, amended. A create request with neither an uploaded file nor a matching inline payload
  never creates a catalog record and is never answered 201. It is answered ``Image is
  required'' exactly when all four required fields are truthy and the body's \<open>imageUrl\<close> is
  falsy or a string that does not begin with \<open>data:image\<close>.
\<close>

theorem createProduct_without_image:
  assumes "req_file req = None"
    and "case body_imageUrl req of JStr s \<Rightarrow> match_data_uri s = None | _ \<Rightarrow> True"
  shows "\<exists>resp fs'. createProduct e req fs d = (resp, fs', d) \<and> status resp \<noteq> 201 \<and>
           (resp = Response 400 (Message ''Image is required'')) =
             (truthy (body_title req) \<and> truthy (body_rating req) \<and> truthy (body_price req)
              \<and> truthy (body_discount req)
              \<and> (case body_imageUrl req of JStr s \<Rightarrow> \<not> startsWith s ''data:image''
                  | v \<Rightarrow> \<not> truthy v))"
proof (cases "body_imageUrl req")
  case (JStr s)
  with assms(2) have m: "match_data_uri s = None" by simp
  obtain fs' where
    img: "createImage e req fs =
           (if startsWith s ''data:image''
            then Reply (Response 400 (Message ''Invalid image format'')) fs'
            else Continue [] fs')"
    using createImage_malformed [OF assms(1) JStr m] by blast
  show ?thesis
    by (auto simp: createProduct_def img JStr)
qed (use assms(1) in \<open>auto simp: createProduct_def createImage_def\<close>)

theorem createProduct_without_image_witness:
  "req_file (ex_req\<lparr>body_imageUrl := JUndefined\<rparr>) = None \<and>
   fst (createProduct ex_env (ex_req\<lparr>body_imageUrl := JUndefined\<rparr>) ex_fs ex_db)
     = Response 400 (Message ''Image is required'') \<and>
   snd (snd (createProduct ex_env (ex_req\<lparr>body_imageUrl := JUndefined\<rparr>) ex_fs ex_db)) = ex_db"
proof -
  have a: "req_file (ex_req\<lparr>body_imageUrl := JUndefined\<rparr>) = None"
    by (simp add: ex_req_def)
  have b: "case body_imageUrl (ex_req\<lparr>body_imageUrl := JUndefined\<rparr>) of
             JStr s \<Rightarrow> match_data_uri s = None | _ \<Rightarrow> True"
    by simp
  from createProduct_without_image [OF a b, of ex_env ex_fs ex_db] a
  show ?thesis by (auto simp: ex_req_def)
qed

section \<open>C8: what the catalog responses carry\<close>




section \<open>C9: a record without a reference stops the orphan sweep\<close>

text \<open>
  C9. When some catalog record's reference is \<open>null\<close> or \<open>undefined\<close>, the sweep leaves the
  file system as it was and does not complete; if the uploads directory exists and the catalog
  query succeeds, it ends in the \<open>TypeError\<close> thrown by \<open>url.startsWith\<close>, which the outer
  \<open>catch\<close> logs.
\<close>

theorem cleanup_stops_on_missing_reference:
  assumes "p \<in> set (docs database)"
    and "imageUrl p = RefNull \<or> imageUrl p = RefUndefined"
  shows "fst (cleanupOrphanedImages d fs database) = fs \<and>
         (\<forall>n. snd (cleanupOrphanedImages d fs database) \<noteq> Completed n) \<and>
         (lookup fs (segs (uploadsDirOf d)) = Some Dir \<and> online database \<longrightarrow>
            snd (cleanupOrphanedImages d fs database) = Failed TypeError)"
proof -
  from assms(2) have "\<not> truthyRef (imageUrl p)" "imageUrl p \<noteq> Ref []" by auto
  with assms(1) have used: "usedImages (docs database) = Inl TypeError"
    by (rule usedImages_throws)
  show ?thesis
    by (auto simp: cleanupOrphanedImages_def Let_def Product_find_def used existsSync_def
          readdirSync_def split: sum.splits)
qed

theorem cleanup_stops_on_missing_reference_witness:
  "ex_bare \<in> set (docs ex_db2) \<and> imageUrl ex_bare = RefUndefined \<and>
   lookup ex_fs_orphan [''app'', ''uploads'', ''orphan.png''] = Some (File [1]) \<and>
   usedImages [ex_product] = Inr [''uploads/base64-1700000000000-82mvyr.png''] \<and>
   cleanupOrphanedImages ex_mw ex_fs_orphan ex_db2 = (ex_fs_orphan, Failed TypeError)"
proof -
  have a: "ex_bare \<in> set (docs ex_db2)" by (simp add: ex_db2_def)
  have b: "imageUrl ex_bare = RefNull \<or> imageUrl ex_bare = RefUndefined"
    by (simp add: ex_bare_def)
  have c: "lookup ex_fs_orphan (segs (uploadsDirOf ex_mw)) = Some Dir \<and> online ex_db2"
    by (simp add: ex_defs path_defs lookup_def)
  from cleanup_stops_on_missing_reference [OF a b, of ex_mw ex_fs_orphan] c
  have "cleanupOrphanedImages ex_mw ex_fs_orphan ex_db2 = (ex_fs_orphan, Failed TypeError)"
    by (simp add: prod_eq_iff)
  moreover have "lookup ex_fs_orphan [''app'', ''uploads'', ''orphan.png''] = Some (File [1])"
    by (simp add: ex_defs lookup_def)
  moreover have "usedImages [ex_product] = Inr [''uploads/base64-1700000000000-82mvyr.png'']"
    by (simp add: ex_defs str_defs)
  ultimately show ?thesis using a by (simp add: ex_bare_def)
qed

section \<open>C10: a missing field is noticed after the blob was written\<close>



end
